theory Spec2Isabelle
  imports Complex_Main
begin

section \<open>Numbers\<close>

text \<open>
  The program computes on IEEE doubles (numpy \<^verbatim>\<open>float64\<close>). A double is modelled as a
  real or one of the three non-finite values. A division by zero does not raise (numpy
  only warns, and \<^verbatim>\<open>Trader.py\<close> silences warnings in its second line), it yields an
  infinity or NaN, and every comparison with NaN is false. The only divisor of the program
  is a standard deviation, a square root, so a zero divisor is \<open>+0.0\<close>; the sign of zero is
  left out.

  The sums and differences of doubles, \<open>fadd\<close> and \<open>fsub\<close>, are rounded as IEEE 754
  prescribes: to the nearest double, a tie to the one with an even significand, and to an
  infinity beyond the largest double. This is the rounding of \<^verbatim>\<open>capital += profit\<close>, which
  makes the order of the additions matter. Everything else is kept exact: products and
  quotients, the difference of two spread values in a profit, square roots, and the
  statistics of the libraries.
\<close>

datatype fval = Fin real | PInf | NInf | NaN

fun fneg :: "fval \<Rightarrow> fval" where
  "fneg (Fin a) = Fin (- a)"
| "fneg PInf = NInf"
| "fneg NInf = PInf"
| "fneg NaN = NaN"

text \<open>
  \<open>round_even\<close> rounds to the nearest integer, a tie to the even one. \<open>ulp x\<close> is the
  distance of neighbouring doubles at the magnitude of \<open>x\<close>: doubles have 53 significant
  bits, and below \<^verbatim>\<open>2 ** -1022\<close> (the subnormal range) the distance stays \<^verbatim>\<open>2 ** -1074\<close>.
\<close>

definition round_even :: "real \<Rightarrow> int" where
  "round_even y =
     (let f = \<lfloor>y\<rfloor>
      in if y - of_int f < 1 / 2 then f
         else if 1 / 2 < y - of_int f then f + 1
         else if even f then f else f + 1)"

definition ulp :: "real \<Rightarrow> real" where
  "ulp x = 2 powr (of_int (max \<lfloor>log 2 \<bar>x\<bar>\<rfloor> (- 1022)) - 52)"

definition round64 :: "real \<Rightarrow> real" where
  "round64 x = (if x = 0 then 0 else of_int (round_even (x / ulp x)) * ulp x)"

text \<open>The double nearest to a real; the doubles end below \<^verbatim>\<open>2 ** 1024\<close>.\<close>

definition double :: "real \<Rightarrow> fval" where
  "double x =
     (let r = round64 x
      in if 2 ^ 1024 \<le> \<bar>r\<bar> then (if 0 < r then PInf else NInf) else Fin r)"

fun fadd :: "fval \<Rightarrow> fval \<Rightarrow> fval" where
  "fadd (Fin a) (Fin b) = double (a + b)"
| "fadd NaN _ = NaN"
| "fadd _ NaN = NaN"
| "fadd PInf NInf = NaN"
| "fadd NInf PInf = NaN"
| "fadd PInf _ = PInf"
| "fadd _ PInf = PInf"
| "fadd NInf _ = NInf"
| "fadd _ NInf = NInf"

definition fsub :: "fval \<Rightarrow> fval \<Rightarrow> fval" where
  "fsub a b = fadd a (fneg b)"

fun fmul :: "fval \<Rightarrow> fval \<Rightarrow> fval" where
  "fmul (Fin a) (Fin b) = Fin (a * b)"
| "fmul NaN _ = NaN"
| "fmul _ NaN = NaN"
| "fmul (Fin a) PInf = (if a = 0 then NaN else if 0 < a then PInf else NInf)"
| "fmul (Fin a) NInf = (if a = 0 then NaN else if 0 < a then NInf else PInf)"
| "fmul PInf (Fin b) = (if b = 0 then NaN else if 0 < b then PInf else NInf)"
| "fmul NInf (Fin b) = (if b = 0 then NaN else if 0 < b then NInf else PInf)"
| "fmul PInf PInf = PInf"
| "fmul PInf NInf = NInf"
| "fmul NInf PInf = NInf"
| "fmul NInf NInf = PInf"

fun fdiv :: "fval \<Rightarrow> fval \<Rightarrow> fval" where
  "fdiv (Fin a) (Fin b) =
     (if b = 0 then (if a = 0 then NaN else if 0 < a then PInf else NInf)
      else Fin (a / b))"
| "fdiv NaN _ = NaN"
| "fdiv _ NaN = NaN"
| "fdiv (Fin a) PInf = Fin 0"
| "fdiv (Fin a) NInf = Fin 0"
| "fdiv PInf (Fin b) = (if 0 \<le> b then PInf else NInf)"
| "fdiv NInf (Fin b) = (if 0 \<le> b then NInf else PInf)"
| "fdiv PInf PInf = NaN"
| "fdiv PInf NInf = NaN"
| "fdiv NInf PInf = NaN"
| "fdiv NInf NInf = NaN"

text \<open>\<open>flt a b\<close> is the comparison \<^verbatim>\<open>a < b\<close>; \<^verbatim>\<open>a > b\<close> is \<open>flt b a\<close>.\<close>

fun flt :: "fval \<Rightarrow> fval \<Rightarrow> bool" where
  "flt (Fin a) (Fin b) = (a < b)"
| "flt NaN _ = False"
| "flt _ NaN = False"
| "flt NInf NInf = False"
| "flt NInf _ = True"
| "flt PInf _ = False"
| "flt (Fin a) PInf = True"
| "flt (Fin a) NInf = False"

section \<open>Errors and series\<close>

text \<open>The exceptions the modelled code can raise; a computation returns \<open>error + 'a\<close>.\<close>

datatype error = KeyError | ValueError | IndexError | TypeError

text \<open>
  A pandas Series is its list of (label, value) rows, in order. The labels of a price
  series are its timestamps. \<^verbatim>\<open>s.loc[d]\<close> looks a label up and raises KeyError when it
  is absent; the labels of a series are taken to be distinct, as the timestamps of a
  price series are, so that the lookup yields one scalar.
\<close>

type_synonym ('ts, 'a) series = "('ts \<times> 'a) list"

definition loc :: "('ts, 'a) series \<Rightarrow> 'ts \<Rightarrow> error + 'a" where
  "loc s d = (case map_of s d of None \<Rightarrow> Inl KeyError | Some v \<Rightarrow> Inr v)"

definition mean :: "real list \<Rightarrow> fval" where
  "mean vs = (if vs = [] then NaN else Fin (sum_list vs / real (length vs)))"

text \<open>
  \<^verbatim>\<open>Series.std()\<close>: the sample standard deviation (pandas divides by \<open>n - 1\<close>), NaN for
  fewer than two observations.
\<close>

definition std :: "real list \<Rightarrow> fval" where
  "std vs =
     (if length vs < 2 then NaN
      else let m = sum_list vs / real (length vs)
           in Fin (sqrt (sum_list (map (\<lambda>v. (v - m)\<^sup>2) vs) / real (length vs - 1))))"

section \<open>Spread\<close>

text \<open>
  \<^verbatim>\<open>
  def compute_spread(x, y):
      x_const = sm.add_constant(x)
      model = sm.OLS(y, x_const).fit()
      beta = model.params[1]
      spread = y - beta * x
      return spread, beta
  \<close>
  The statsmodels calls are modelled by what they compute. \<^verbatim>\<open>add_constant\<close> prepends the
  intercept column unless the data already holds a constant non-zero column, in which case
  it returns the data as it is. \<^verbatim>\<open>OLS(y, X)\<close> raises ValueError when the labels of \<open>y\<close>
  and \<open>X\<close> differ, and \<^verbatim>\<open>fit\<close> raises ValueError on an empty sample; otherwise it returns
  the least-squares coefficients of least norm: the slope is \<open>Sxy / Sxx\<close>, and zero when
  \<open>x\<close> is zero throughout. With the intercept column skipped there is one coefficient only
  and \<^verbatim>\<open>params[1]\<close> raises IndexError. With equal labels \<^verbatim>\<open>y - beta * x\<close> is pointwise.

  \<open>ols_slope\<close> is the slope the fit approximates, not its digits: the library computes on
  doubles, through a pseudo-inverse that drops the singular values it finds too small, so
  that its slope is rounded, and far off for an ill-conditioned \<open>x\<close>. The properties of the
  loop proved below hold for any spread and so for any slope; only the example runs with a
  non-zero \<open>x\<close> use its value. Where \<open>x\<close> is zero throughout, \<^verbatim>\<open>beta * x\<close> is zero and the
  spread is \<open>y\<close> whatever the slope.
\<close>

definition ols_slope :: "real list \<Rightarrow> real list \<Rightarrow> real" where
  "ols_slope xs ys =
     (let n = real (length xs);
          mx = sum_list xs / n;
          my = sum_list ys / n;
          sxx = sum_list (map (\<lambda>a. (a - mx)\<^sup>2) xs);
          sxy = sum_list (map (\<lambda>(a, b). (a - mx) * (b - my)) (zip xs ys))
      in if sxx = 0 then 0 else sxy / sxx)"

definition is_const :: "real list \<Rightarrow> bool" where
  "is_const xs = ((\<forall>a \<in> set xs. a = hd xs) \<and> (\<exists>a \<in> set xs. a \<noteq> 0))"

definition compute_spread ::
  "('ts, real) series \<Rightarrow> ('ts, real) series \<Rightarrow> error + (('ts, real) series \<times> real)" where
  "compute_spread x y =
     (if map fst y \<noteq> map fst x then Inl ValueError
      else if x = [] then Inl ValueError
      else if is_const (map snd x) then Inl IndexError
      else let beta = ols_slope (map snd x) (map snd y)
           in Inr (map (\<lambda>((t, a), (_, b)). (t, b - beta * a)) (zip x y), beta))"

text \<open>\<^verbatim>\<open>z = (spread - spread.mean()) / spread.std()\<close>\<close>

definition zscore :: "('ts, real) series \<Rightarrow> ('ts, fval) series" where
  "zscore spread =
     map (\<lambda>(t, v). (t, fdiv (fsub (Fin v) (mean (map snd spread))) (std (map snd spread))))
       spread"

section \<open>Backtest\<close>

text \<open>
  \<^verbatim>\<open>
  def backtest_pair(x, y, cash=100000, entry_z=1.0, exit_z=0.2):
      spread, beta = compute_spread(x, y)
      z = (spread - spread.mean()) / spread.std()
      position = 0  # +1 long spread, -1 short spread
      pnl = [cash]
      capital = cash
      size = cash * 0.1  # risk 10% per trade
      trades = []
      entry_price = None
      entry_date = None
      for i in range(1, len(z)):
          if position == 0:
              if z.iloc[i] > entry_z:
                  position = -1
                  entry_price = spread.iloc[i]
                  entry_date = spread.index[i]
              elif z.iloc[i] < -entry_z:
                  position = 1
                  entry_price = spread.iloc[i]
                  entry_date = spread.index[i]
          elif position == 1 and z.iloc[i] > -exit_z:
              profit = (spread.iloc[i] - entry_price) * (size / spread.std())
              capital += profit
              trades.append({'entry_date': entry_date, 'exit_date': spread.index[i],
                  'position': 'LONG', 'entry_spread': entry_price,
                  'exit_spread': spread.iloc[i], 'profit': profit,
                  'entry_z': z.loc[entry_date], 'exit_z': z.iloc[i]})
              position = 0
              entry_price = None
              entry_date = None
          elif position == -1 and z.iloc[i] < exit_z:
              profit = (entry_price - spread.iloc[i]) * (size / spread.std())
              capital += profit
              trades.append({... 'position': 'SHORT' ...})
              position = 0
              entry_price = None
              entry_date = None
          pnl.append(capital)
      return np.array(pnl), spread, z, beta, trades
  \<close>
  The prices, the cash and the two thresholds are finite numbers; z-scores, profits and
  capital are values of \<open>fval\<close>.

  One entry of the list \<^verbatim>\<open>trades\<close>, the dictionary appended when a position closes:
\<close>

record 'ts trade =
  t_entry_date :: 'ts
  t_exit_date :: 'ts
  t_position :: string
  t_entry_spread :: real
  t_exit_spread :: real
  t_profit :: fval
  t_entry_z :: fval
  t_exit_z :: fval

text \<open>The local variables of \<^verbatim>\<open>backtest_pair\<close> that its loop updates.\<close>

record 'ts state =
  position :: int
  pnl :: "fval list"
  capital :: fval
  trades :: "'ts trade list"
  entry_price :: "real option"
  entry_date :: "'ts option"

definition init :: "real \<Rightarrow> 'ts state" where
  "init cash = \<lparr>position = 0, pnl = [Fin cash], capital = Fin cash, trades = [],
                entry_price = None, entry_date = None\<rparr>"

text \<open>The last statement of the loop body, \<^verbatim>\<open>pnl.append(capital)\<close>.\<close>

definition append_pnl :: "'ts state \<Rightarrow> 'ts state" where
  "append_pnl s = s\<lparr>pnl := pnl s @ [capital s]\<rparr>"

text \<open>
  The two closing branches of the loop body differ in the label and in the sign of the
  move: \<open>long\<close> tells which one runs. With no entry price the subtraction would raise
  TypeError, with no entry date the lookup \<^verbatim>\<open>z.loc[entry_date]\<close> KeyError.
\<close>

definition close_position ::
  "('ts, real) series \<Rightarrow> ('ts, fval) series \<Rightarrow> real \<Rightarrow> bool \<Rightarrow> nat \<Rightarrow> 'ts state
     \<Rightarrow> error + 'ts state" where
  "close_position spread z sz long i s =
     (case entry_price s of
        None \<Rightarrow> Inl TypeError
      | Some e \<Rightarrow>
          let si = snd (spread ! i);
              profit = fmul (Fin (if long then si - e else e - si))
                         (fdiv (Fin sz) (std (map snd spread)));
              capital' = fadd (capital s) profit
          in (case entry_date s of
                None \<Rightarrow> Inl KeyError
              | Some d \<Rightarrow>
                  (case loc z d of
                     Inl err \<Rightarrow> Inl err
                   | Inr zd \<Rightarrow>
                       Inr (s\<lparr>capital := capital',
                              trades := trades s @
                                [\<lparr>t_entry_date = d, t_exit_date = fst (spread ! i),
                                  t_position = (if long then ''LONG'' else ''SHORT''),
                                  t_entry_spread = e, t_exit_spread = si,
                                  t_profit = profit, t_entry_z = zd,
                                  t_exit_z = snd (z ! i)\<rparr>],
                              position := 0, entry_price := None, entry_date := None\<rparr>))))"

text \<open>
  The body of \<^verbatim>\<open>for i in range(1, len(z))\<close>, with the branches in the order of the
  \<^verbatim>\<open>if\<close>/\<^verbatim>\<open>elif\<close> chain. \<^verbatim>\<open>iloc[i]\<close> raises IndexError out of range.
\<close>

definition backtest_body ::
  "('ts, real) series \<Rightarrow> ('ts, fval) series \<Rightarrow> real \<Rightarrow> real \<Rightarrow> real \<Rightarrow> nat \<Rightarrow> 'ts state
     \<Rightarrow> error + 'ts state" where
  "backtest_body spread z sz entry_z exit_z i s =
     (if \<not> (i < length z \<and> i < length spread) then Inl IndexError
      else if position s = 0 then
        (if flt (Fin entry_z) (snd (z ! i)) then
           Inr (append_pnl (s\<lparr>position := - 1, entry_price := Some (snd (spread ! i)),
                               entry_date := Some (fst (spread ! i))\<rparr>))
         else if flt (snd (z ! i)) (Fin (- entry_z)) then
           Inr (append_pnl (s\<lparr>position := 1, entry_price := Some (snd (spread ! i)),
                               entry_date := Some (fst (spread ! i))\<rparr>))
         else Inr (append_pnl s))
      else if position s = 1 \<and> flt (Fin (- exit_z)) (snd (z ! i)) then
        (case close_position spread z sz True i s of
           Inl err \<Rightarrow> Inl err | Inr s' \<Rightarrow> Inr (append_pnl s'))
      else if position s = - 1 \<and> flt (snd (z ! i)) (Fin exit_z) then
        (case close_position spread z sz False i s of
           Inl err \<Rightarrow> Inl err | Inr s' \<Rightarrow> Inr (append_pnl s'))
      else Inr (append_pnl s))"

text \<open>The loop over a list of steps; an exception in the body ends it.\<close>

fun backtest_loop ::
  "('ts, real) series \<Rightarrow> ('ts, fval) series \<Rightarrow> real \<Rightarrow> real \<Rightarrow> real \<Rightarrow> nat list \<Rightarrow> 'ts state
     \<Rightarrow> error + 'ts state" where
  "backtest_loop spread z sz entry_z exit_z [] s = Inr s"
| "backtest_loop spread z sz entry_z exit_z (i # is) s =
     (case backtest_body spread z sz entry_z exit_z i s of
        Inl err \<Rightarrow> Inl err
      | Inr s' \<Rightarrow> backtest_loop spread z sz entry_z exit_z is s')"

text \<open>
  The state of the loop once step \<open>t\<close> is done (step 0 is the state before the loop):
  the loop run over \<open>range(1, t + 1)\<close>.
\<close>

definition backtest_upto ::
  "('ts, real) series \<Rightarrow> ('ts, fval) series \<Rightarrow> real \<Rightarrow> real \<Rightarrow> real \<Rightarrow> nat
     \<Rightarrow> error + 'ts state" where
  "backtest_upto spread z cash entry_z exit_z t =
     backtest_loop spread z (cash * 0.1) entry_z exit_z [1..<Suc t] (init cash)"

text \<open>
  \<^verbatim>\<open>backtest_pair(x, y, cash, entry_z, exit_z)\<close> returns
  \<^verbatim>\<open>(np.array(pnl), spread, z, beta, trades)\<close>.
\<close>

definition backtest_pair ::
  "('ts, real) series \<Rightarrow> ('ts, real) series \<Rightarrow> real \<Rightarrow> real \<Rightarrow> real
     \<Rightarrow> error + (fval list \<times> ('ts, real) series \<times> ('ts, fval) series \<times> real \<times> 'ts trade list)"
  where
  "backtest_pair x y cash entry_z exit_z =
     (case compute_spread x y of
        Inl err \<Rightarrow> Inl err
      | Inr (spread, beta) \<Rightarrow>
          let z = zscore spread
          in (case backtest_loop spread z (cash * 0.1) entry_z exit_z [1..<length z] (init cash) of
                Inl err \<Rightarrow> Inl err
              | Inr s \<Rightarrow> Inr (pnl s, spread, z, beta, trades s)))"

section \<open>Pair scan\<close>

text \<open>
  A pandas DataFrame is its list of columns, each a label and a series over the index of
  the frame; a missing value (NaN) of a column is \<open>None\<close>. Column labels are ASCII strings,
  distinct once normalised, so that \<^verbatim>\<open>df[key]\<close> is one column.
\<close>

type_synonym 'ts dataframe = "(string \<times> ('ts, real option) series) list"

text \<open>\<^verbatim>\<open>c.lower().strip()\<close>, on ASCII: letters to lower case, white space off both ends.\<close>

definition lower_char :: "char \<Rightarrow> char" where
  "lower_char c =
     (case map_of (zip ''ABCDEFGHIJKLMNOPQRSTUVWXYZ'' ''abcdefghijklmnopqrstuvwxyz'') c of
        Some l \<Rightarrow> l
      | None \<Rightarrow> c)"

definition is_space :: "char \<Rightarrow> bool" where
  "is_space c =
     (c \<in> set [CHR '' '', CHR 0x09, CHR 0x0A, CHR 0x0B, CHR 0x0C, CHR 0x0D,
                 CHR 0x1C, CHR 0x1D, CHR 0x1E, CHR 0x1F])"

definition strip :: "string \<Rightarrow> string" where
  "strip s = rev (dropWhile is_space (rev (dropWhile is_space s)))"

text \<open>\<^verbatim>\<open>Series.dropna()\<close> keeps the rows that hold a value.\<close>

definition dropna :: "('ts, real option) series \<Rightarrow> ('ts, real) series" where
  "dropna s = concat (map (\<lambda>(t, v). case v of None \<Rightarrow> [] | Some a \<Rightarrow> [(t, a)]) s)"

text \<open>
  \<^verbatim>\<open>
  def safe_price(df: pd.DataFrame) -> pd.Series:
      cols = [c.lower().strip() for c in df.columns]
      df.columns = cols
      for key in ("adj close", "close"):
          if key in df.columns:
              return df[key].dropna()
      raise KeyError(f"No usable price column found: {df.columns}")
  \<close>
\<close>

definition safe_price :: "'ts dataframe \<Rightarrow> error + ('ts, real) series" where
  "safe_price df =
     (let cols = map (\<lambda>(c, s). (strip (map lower_char c), s)) df
      in case map_of cols ''adj close'' of
           Some s \<Rightarrow> Inr (dropna s)
         | None \<Rightarrow>
             (case map_of cols ''close'' of
                Some s \<Rightarrow> Inr (dropna s)
              | None \<Rightarrow> Inl KeyError))"

text \<open>
  \<^verbatim>\<open>pd.concat([s_a, s_b], axis=1).dropna()\<close>: the rows whose timestamp both series have,
  with the two prices (for series with distinct, increasing timestamps).
\<close>

definition align :: "('ts, real) series \<Rightarrow> ('ts, real) series \<Rightarrow> ('ts \<times> real \<times> real) list" where
  "align s_a s_b =
     concat (map (\<lambda>(t, a). case map_of s_b t of None \<Rightarrow> [] | Some b \<Rightarrow> [(t, a, b)]) s_a)"

text \<open>
  \<^verbatim>\<open>
  def find_cointegrated_pairs(data_dict, significance=0.05, max_pairs=10):
      keys = list(data_dict.keys())
      n = len(keys)
      candidates = []
      for i in range(n):
          for j in range(i + 1, n):
              a, b = keys[i], keys[j]
              s_a, s_b = safe_price(data_dict[a]), safe_price(data_dict[b])
              df = pd.concat([s_a, s_b], axis=1).dropna()
              if len(df) < 250:
                  continue
              x, y = df.iloc[:, 0], df.iloc[:, 1]
              y_const = sm.add_constant(x)
              model = sm.OLS(y, y_const).fit()
              resid = model.resid
              adf_p = adfuller(resid)[1]
              if adf_p < significance:
                  candidates.append((a, b, adf_p))
              if len(candidates) >= max_pairs:
                  break
          if len(candidates) >= max_pairs:
              break
      candidates.sort(key=lambda x: x[2])
      return candidates
  \<close>
  The dictionary is the list of its items in insertion order; its keys are distinct, so
  \<^verbatim>\<open>data_dict[keys[i]]\<close> is the frame of the \<open>i\<close>-th item. The regression and the
  Augmented Dickey-Fuller test are statsmodels code: \<open>adf x y\<close> stands for
  \<^verbatim>\<open>adfuller(sm.OLS(y, sm.add_constant(x)).fit().resid)[1]\<close>, the p-value for the two
  columns of the aligned frame, or the exception the library raises.

  \<open>scan_j\<close> is the inner loop run over the instruments after \<open>a\<close>; it ends at the end of
  the list or at \<^verbatim>\<open>break\<close>. \<open>scan_i\<close> is the outer loop. \<^verbatim>\<open>list.sort\<close> is stable, as
  \<open>sort_key\<close> is.
\<close>

fun scan_j ::
  "(real list \<Rightarrow> real list \<Rightarrow> error + real) \<Rightarrow> real \<Rightarrow> int \<Rightarrow> ('k \<times> 'ts dataframe)
     \<Rightarrow> ('k \<times> 'ts dataframe) list \<Rightarrow> ('k \<times> 'k \<times> real) list
     \<Rightarrow> error + ('k \<times> 'k \<times> real) list" where
  "scan_j adf significance max_pairs a [] candidates = Inr candidates"
| "scan_j adf significance max_pairs a (b # bs) candidates =
     (case safe_price (snd a) of
        Inl err \<Rightarrow> Inl err
      | Inr s_a \<Rightarrow>
          (case safe_price (snd b) of
             Inl err \<Rightarrow> Inl err
           | Inr s_b \<Rightarrow>
               let df = align s_a s_b
               in if length df < 250 then scan_j adf significance max_pairs a bs candidates
                  else (case adf (map (\<lambda>(t, u, v). u) df) (map (\<lambda>(t, u, v). v) df) of
                          Inl err \<Rightarrow> Inl err
                        | Inr adf_p \<Rightarrow>
                            let candidates' =
                                  (if adf_p < significance
                                   then candidates @ [(fst a, fst b, adf_p)]
                                   else candidates)
                            in if max_pairs \<le> int (length candidates') then Inr candidates'
                               else scan_j adf significance max_pairs a bs candidates')))"

fun scan_i ::
  "(real list \<Rightarrow> real list \<Rightarrow> error + real) \<Rightarrow> real \<Rightarrow> int \<Rightarrow> ('k \<times> 'ts dataframe) list
     \<Rightarrow> ('k \<times> 'k \<times> real) list \<Rightarrow> error + ('k \<times> 'k \<times> real) list" where
  "scan_i adf significance max_pairs [] candidates = Inr candidates"
| "scan_i adf significance max_pairs (a # rest) candidates =
     (case scan_j adf significance max_pairs a rest candidates of
        Inl err \<Rightarrow> Inl err
      | Inr candidates' \<Rightarrow>
          if max_pairs \<le> int (length candidates') then Inr candidates'
          else scan_i adf significance max_pairs rest candidates')"

definition find_cointegrated_pairs ::
  "(real list \<Rightarrow> real list \<Rightarrow> error + real) \<Rightarrow> ('k \<times> 'ts dataframe) list \<Rightarrow> real \<Rightarrow> int
     \<Rightarrow> error + ('k \<times> 'k \<times> real) list" where
  "find_cointegrated_pairs adf data_dict significance max_pairs =
     (case scan_i adf significance max_pairs data_dict [] of
        Inl err \<Rightarrow> Inl err
      | Inr candidates \<Rightarrow> Inr (sort_key (\<lambda>(a, b, p). p) candidates))"

section \<open>Predicates on runs\<close>

text \<open>
  The states the loop can reach: the position is 0, 1 or \<open>-1\<close>; no entry is recorded while
  it is 0, and an entry price and an entry date taken from the index are recorded
  otherwise.
\<close>

definition wf :: "('ts, fval) series \<Rightarrow> 'ts state \<Rightarrow> bool" where
  "wf z s = ((position s = 0 \<or> position s = 1 \<or> position s = - 1) \<and>
     (position s = 0 \<longrightarrow> entry_price s = None \<and> entry_date s = None) \<and>
     (position s \<noteq> 0 \<longrightarrow> (\<exists>e d. entry_price s = Some e \<and> entry_date s = Some d \<and> d \<in> fst ` set z)))"

text \<open>The profit of a trade follows its label, for position size \<open>sz\<close> and deviation \<open>sd\<close>.\<close>

definition profit_rule :: "real \<Rightarrow> fval \<Rightarrow> 'ts trade \<Rightarrow> bool" where
  "profit_rule sz sd tr =
     (if t_position tr = ''LONG''
      then t_profit tr = fmul (Fin (t_exit_spread tr - t_entry_spread tr)) (fdiv (Fin sz) sd)
      else t_position tr = ''SHORT'' \<and>
           t_profit tr = fmul (Fin (t_entry_spread tr - t_exit_spread tr)) (fdiv (Fin sz) sd))"

text \<open>
  \<open>trade_steps spread z P tr e x\<close>: the trade \<open>tr\<close> was entered at step \<open>e\<close> and closed at
  the later step \<open>x\<close> of the trajectory \<open>P\<close>: its dates and spread values are those of
  the two steps, \<open>P\<close> is constant from the value before the entry up to the step before the
  exit, and at the exit it grows by the profit of the trade.
\<close>

definition trade_steps ::
  "('ts, real) series \<Rightarrow> ('ts, fval) series \<Rightarrow> fval list \<Rightarrow> 'ts trade \<Rightarrow> nat \<Rightarrow> nat \<Rightarrow> bool" where
  "trade_steps spread z P tr e x =
     (1 \<le> e \<and> e < x \<and> x < length P \<and>
      t_entry_date tr = fst (spread ! e) \<and> t_exit_date tr = fst (spread ! x) \<and>
      t_entry_spread tr = snd (spread ! e) \<and> t_exit_spread tr = snd (spread ! x) \<and>
      t_exit_z tr = snd (z ! x) \<and>
      (\<forall>k \<in> {e - 1..<x}. P ! (e - 1) = P ! k) \<and>
      P ! x = fadd (P ! (x - 1)) (t_profit tr))"

text \<open>
  \<open>open_since spread P t s e\<close>: in state \<open>s\<close>, after step \<open>t\<close>, the position entered at
  step \<open>e\<close> is still open, and \<open>P\<close> has been constant since the value before the entry.
\<close>

definition open_since :: "('ts, real) series \<Rightarrow> fval list \<Rightarrow> nat \<Rightarrow> 'ts state \<Rightarrow> nat \<Rightarrow> bool" where
  "open_since spread P t s e =
     (1 \<le> e \<and> e \<le> t \<and> entry_date s = Some (fst (spread ! e)) \<and>
      entry_price s = Some (snd (spread ! e)) \<and> (\<forall>k \<in> {e - 1..t}. P ! (e - 1) = P ! k))"

text \<open>
  The invariant of the loop that relates the ledger to the trajectory after step \<open>t\<close>: the
  trajectory has \<open>t + 1\<close> values and ends with the capital; every trade has its two steps;
  each trade exits at a step before the next one enters; and an open position was entered
  after every trade of the ledger was closed.
\<close>

definition ledger_inv ::
  "('ts, real) series \<Rightarrow> ('ts, fval) series \<Rightarrow> nat \<Rightarrow> 'ts state \<Rightarrow> bool" where
  "ledger_inv spread z t s =
     (length (pnl s) = Suc t \<and> pnl s ! t = capital s \<and>
      (\<forall>tr \<in> set (trades s). \<exists>e x. trade_steps spread z (pnl s) tr e x) \<and>
      (\<forall>k. Suc k < length (trades s) \<longrightarrow>
         (\<exists>x e. x < e \<and> e \<le> t \<and> t_exit_date (trades s ! k) = fst (spread ! x) \<and>
                 t_entry_date (trades s ! Suc k) = fst (spread ! e))) \<and>
      (position s \<noteq> 0 \<longrightarrow>
         (\<exists>e. open_since spread (pnl s) t s e \<and>
              (\<forall>tr \<in> set (trades s). \<exists>x. x < e \<and> t_exit_date tr = fst (spread ! x)))))"

text \<open>A trade closes at step \<open>i\<close>: the step appends a trade to the ledger.\<close>

definition closes_at ::
  "('ts, real) series \<Rightarrow> ('ts, fval) series \<Rightarrow> real \<Rightarrow> real \<Rightarrow> real \<Rightarrow> nat \<Rightarrow> bool" where
  "closes_at spread z cash entry_z exit_z i =
     (case (backtest_upto spread z cash entry_z exit_z (i - 1),
            backtest_upto spread z cash entry_z exit_z i) of
        (Inr s, Inr s') \<Rightarrow> length (trades s') = Suc (length (trades s))
      | _ \<Rightarrow> False)"

text \<open>The sum of a list of profits, added up from zero in ledger order.\<close>

definition fsum :: "fval list \<Rightarrow> fval" where
  "fsum ps = foldl fadd (Fin 0) ps"

text \<open>
  The three effects a step can have, in the words of the specification: a position \<open>p\<close> is
  opened at step \<open>t\<close>, recording the spread value and the timestamp; the position is
  closed at step \<open>t\<close>, which realizes the profit, appends the trade labelled \<open>lab\<close> and
  clears the entry; nothing changes.
\<close>

definition opened :: "('ts, real) series \<Rightarrow> nat \<Rightarrow> int \<Rightarrow> 'ts state \<Rightarrow> 'ts state \<Rightarrow> bool" where
  "opened spread t p s s' =
     (position s' = p \<and> entry_price s' = Some (snd (spread ! t)) \<and>
      entry_date s' = Some (fst (spread ! t)) \<and> capital s' = capital s \<and>
      trades s' = trades s)"

definition closed ::
  "('ts, real) series \<Rightarrow> ('ts, fval) series \<Rightarrow> nat \<Rightarrow> string \<Rightarrow> 'ts state \<Rightarrow> 'ts state \<Rightarrow> bool" where
  "closed spread z t lab s s' =
     (position s' = 0 \<and> entry_price s' = None \<and> entry_date s' = None \<and>
      trades s' \<noteq> [] \<and> butlast (trades s') = trades s \<and>
      (let tr = last (trades s')
       in t_position tr = lab \<and> entry_date s = Some (t_entry_date tr) \<and>
          entry_price s = Some (t_entry_spread tr) \<and>
          t_exit_date tr = fst (spread ! t) \<and> t_exit_spread tr = snd (spread ! t) \<and>
          t_exit_z tr = snd (z ! t) \<and> capital s' = fadd (capital s) (t_profit tr)))"

definition unchanged :: "'ts state \<Rightarrow> 'ts state \<Rightarrow> bool" where
  "unchanged s s' =
     (position s' = position s \<and> entry_price s' = entry_price s \<and>
      entry_date s' = entry_date s \<and> capital s' = capital s \<and> trades s' = trades s)"

text \<open>
  A candidate \<open>(a, b, p)\<close> qualifies: \<open>a\<close> and \<open>b\<close> are instruments of the universe with
  price series that align on at least 250 observations, \<open>p\<close> is the p-value of the test on
  the aligned sample, and \<open>p\<close> is below the significance level.
\<close>

definition qualifies ::
  "(real list \<Rightarrow> real list \<Rightarrow> error + real) \<Rightarrow> ('k \<times> 'ts dataframe) list \<Rightarrow> real
     \<Rightarrow> 'k \<times> 'k \<times> real \<Rightarrow> bool" where
  "qualifies adf data_dict significance c =
     (case c of (a, b, p) \<Rightarrow>
        p < significance \<and>
        (\<exists>(ka, fa) \<in> set data_dict. \<exists>(kb, fb) \<in> set data_dict.
           ka = a \<and> kb = b \<and>
           (case (safe_price fa, safe_price fb) of
              (Inr s_a, Inr s_b) \<Rightarrow>
                250 \<le> length (align s_a s_b) \<and>
                adf (map (\<lambda>(t, u, v). u) (align s_a s_b))
                    (map (\<lambda>(t, u, v). v) (align s_a s_b)) = Inr p
            | _ \<Rightarrow> False)))"

text \<open>
  A scan that did not run to its end: it raised KeyError or an error of the stationarity
  test, or it left the loops at \<^verbatim>\<open>break\<close> with \<open>max_pairs\<close> candidates or more.
\<close>

definition cut_short ::
  "(real list \<Rightarrow> real list \<Rightarrow> error + real) \<Rightarrow> int \<Rightarrow> error + ('k \<times> 'k \<times> real) list \<Rightarrow> bool" where
  "cut_short adf max_pairs r =
     (case r of
        Inl e \<Rightarrow> e = KeyError \<or> (\<exists>xs ys. adf xs ys = Inl e)
      | Inr c \<Rightarrow> max_pairs \<le> int (length c))"

section \<open>Example inputs\<close>

text \<open>
  Seven observations with \<open>y = 2 x + 10 + e\<close>, where the residual \<open>e\<close> sums to zero and is
  orthogonal to \<open>x\<close>, so that the least-squares slope is 2, the spread is \<open>10 + e\<close> with
  mean 10 and standard deviation 5, and the z-scores are
  \<open>-0.8, -1.4, -0.6, 0.4, 1.2, 0, 1.2\<close>. With thresholds 1 and 0.2 the run enters LONG at
  step 1, holds at step 2, closes at step 3, enters SHORT at step 4, closes at step 5 and
  enters SHORT again at step 6, the last one, where the position stays open.
\<close>

definition ex_x :: "(nat, real) series" where
  "ex_x = [(0, 2), (1, 1), (2, 3), (3, 3), (4, 2), (5, 4), (6, 1)]"

definition ex_y :: "(nat, real) series" where
  "ex_y = [(0, 10), (1, 5), (2, 13), (3, 18), (4, 20), (5, 18), (6, 18)]"

definition ex_spread :: "(nat, real) series" where
  "ex_spread = [(0, 6), (1, 3), (2, 7), (3, 12), (4, 16), (5, 10), (6, 16)]"

definition ex_z :: "(nat, fval) series" where
  "ex_z = [(0, Fin (- 4 / 5)), (1, Fin (- 7 / 5)), (2, Fin (- 3 / 5)), (3, Fin (2 / 5)),
           (4, Fin (6 / 5)), (5, Fin 0), (6, Fin (6 / 5))]"

definition ex_trades :: "nat trade list" where
  "ex_trades =
     [\<lparr>t_entry_date = 1, t_exit_date = 3, t_position = ''LONG'', t_entry_spread = 3,
       t_exit_spread = 12, t_profit = Fin 18000, t_entry_z = Fin (- 7 / 5),
       t_exit_z = Fin (2 / 5)\<rparr>,
      \<lparr>t_entry_date = 4, t_exit_date = 5, t_position = ''SHORT'', t_entry_spread = 16,
       t_exit_spread = 10, t_profit = Fin 12000, t_entry_z = Fin (6 / 5),
       t_exit_z = Fin 0\<rparr>]"

definition ex_pnl :: "fval list" where
  "ex_pnl = [Fin 100000, Fin 100000, Fin 100000, Fin 118000, Fin 118000, Fin 130000, Fin 130000]"

text \<open>The states of that run after steps 1, 2 and 6.\<close>

definition ex_upto_1 :: "nat state" where
  "ex_upto_1 = \<lparr>position = 1, pnl = [Fin 100000, Fin 100000], capital = Fin 100000,
                 trades = [], entry_price = Some 3, entry_date = Some 1\<rparr>"

definition ex_upto_2 :: "nat state" where
  "ex_upto_2 = \<lparr>position = 1, pnl = [Fin 100000, Fin 100000, Fin 100000], capital = Fin 100000,
                 trades = [], entry_price = Some 3, entry_date = Some 1\<rparr>"

definition ex_final :: "nat state" where
  "ex_final = \<lparr>position = - 1, pnl = ex_pnl, capital = Fin 130000, trades = ex_trades,
                entry_price = Some 16, entry_date = Some 6\<rparr>"

text \<open>The state after step 1 of the same series run with the entry threshold \<open>-2\<close>.\<close>

definition ex_short_1 :: "nat state" where
  "ex_short_1 = \<lparr>position = - 1, pnl = [Fin 100000, Fin 100000], capital = Fin 100000,
                  trades = [], entry_price = Some 3, entry_date = Some 1\<rparr>"

text \<open>
  A run in which the additions to the capital are rounded. \<open>x\<close> is zero throughout, so
  that the spread is \<open>y\<close>; its mean is \<open>20\<close> and its standard deviation \<open>4\<close>, the z-score and
  the profits are computed without rounding, and with the initial capital
  \<open>2814749767106570\<close>, which is \<open>10 * (2 ^ 48 + 1)\<close>, the position size is \<open>2 ^ 48 + 1\<close>. The
  doubles of the magnitude of the capital are the multiples of \<open>1 / 2\<close>; the two profits
  are odd multiples of \<open>1 / 4\<close>.
\<close>

definition rnd_x :: "(nat, real) series" where
  "rnd_x = [(0, 0), (1, 0), (2, 0), (3, 0), (4, 0), (5, 0)]"

definition rnd_y :: "(nat, real) series" where
  "rnd_y = [(0, 17), (1, 14), (2, 23), (3, 21), (4, 25), (5, 20)]"

definition rnd_z :: "(nat, fval) series" where
  "rnd_z = [(0, Fin (- 3 / 4)), (1, Fin (- 3 / 2)), (2, Fin (3 / 4)), (3, Fin (1 / 4)),
            (4, Fin (5 / 4)), (5, Fin 0)]"

definition rnd_trades :: "nat trade list" where
  "rnd_trades =
     [\<lparr>t_entry_date = 1, t_exit_date = 2, t_position = ''LONG'', t_entry_spread = 14,
       t_exit_spread = 23, t_profit = Fin (2533274790395913 / 4), t_entry_z = Fin (- 3 / 2),
       t_exit_z = Fin (3 / 4)\<rparr>,
      \<lparr>t_entry_date = 4, t_exit_date = 5, t_position = ''SHORT'', t_entry_spread = 25,
       t_exit_spread = 20, t_profit = Fin (1407374883553285 / 4), t_entry_z = Fin (5 / 4),
       t_exit_z = Fin 0\<rparr>]"

definition rnd_pnl :: "fval list" where
  "rnd_pnl = [Fin 2814749767106570, Fin 2814749767106570, Fin 3448068464705548,
              Fin 3448068464705548, Fin 3448068464705548, Fin 3799912185593869]"





text \<open>
  Universes of frames with one column of \<open>n\<close> equal prices. The stationarity test is a
  parameter of the scan; \<open>ex_adf\<close> is a stand-in that returns a p-value computed from the
  first prices of the sample, to exercise the bookkeeping of the scan (on columns that are
  constant the test of the library raises ValueError instead). Instrument D of the first
  universe has three observations only.
\<close>

definition const_frame :: "string \<Rightarrow> nat \<Rightarrow> real \<Rightarrow> nat dataframe" where
  "const_frame label n v = [(label, map (\<lambda>i. (i, Some v)) [0..<n])]"

definition ex_adf :: "real list \<Rightarrow> real list \<Rightarrow> error + real" where
  "ex_adf xs ys =
     (case (xs, ys) of (a # _, b # _) \<Rightarrow> Inr (1 / (a + b)) | _ \<Rightarrow> Inl ValueError)"

text \<open>The stationarity test where it raises ValueError, as it does on a constant sample.\<close>

definition adf_invalid :: "real list \<Rightarrow> real list \<Rightarrow> error + real" where
  "adf_invalid xs ys = Inl ValueError"

definition ex_universe :: "(string \<times> nat dataframe) list" where
  "ex_universe =
     [(''A'', const_frame ''Adj Close'' 250 10), (''B'', const_frame ''Close'' 250 20),
      (''D'', const_frame ''Close'' 3 80), (''C'', const_frame '' close'' 250 40)]"

text \<open>
  Universes with an instrument that has no price column, in the first or the second place:
  the scan meets it in its first pair, before the stationarity test is called.
\<close>

definition ex_missing_first :: "(string \<times> nat dataframe) list" where
  "ex_missing_first =
     [(''A'', const_frame ''Open'' 250 10), (''B'', const_frame ''Close'' 250 20),
      (''C'', const_frame ''Close'' 250 40)]"

definition ex_missing_middle :: "(string \<times> nat dataframe) list" where
  "ex_missing_middle =
     [(''A'', const_frame ''Close'' 250 10), (''B'', const_frame ''Volume'' 250 20),
      (''C'', const_frame ''Close'' 250 40)]"

definition ex_missing_second :: "(string \<times> nat dataframe) list" where
  "ex_missing_second =
     [(''A'', const_frame ''Close'' 250 10), (''B'', const_frame ''High'' 250 20)]"

section \<open>Lemmas\<close>

subsection \<open>Rounding\<close>

lemma round_even_int: "round_even (of_int k) = k"
  by (simp add: round_even_def)

lemma round64_0: "round64 0 = 0"
  by (simp add: round64_def)

lemma ulp_pos: "0 < ulp x"
  by (simp add: ulp_def)

text \<open>A real that is a multiple of the distance of the doubles around it is a double.\<close>

lemma round64_exact:
  assumes "x / ulp x \<in> \<int>"
  shows "round64 x = x"
proof (cases "x = 0")
  case True
  then show ?thesis by (simp add: round64_def)
next
  case False
  from assms obtain k where k: "x / ulp x = of_int k" by (auto elim: Ints_cases)
  have "round64 x = of_int (round_even (x / ulp x)) * ulp x"
    using False by (simp add: round64_def)
  also have "\<dots> = of_int k * ulp x" by (simp add: k round_even_int)
  also have "\<dots> = x" using k ulp_pos [of x] by (simp add: field_simps)
  finally show ?thesis .
qed

lemma ulp_at:
  assumes "2 powr of_int e \<le> \<bar>x\<bar>" and "\<bar>x\<bar> < 2 powr (of_int e + 1)" and "- 1022 \<le> e"
  shows "ulp x = 2 powr (of_int e - 52)"
proof -
  have pos: "0 < \<bar>x\<bar>" using assms(1) by (smt (verit) powr_gt_zero)
  have "\<lfloor>log 2 \<bar>x\<bar>\<rfloor> = e"
    using assms(1,2) pos by (simp add: floor_log_eq_powr_iff)
  then show ?thesis using assms(3) by (simp add: ulp_def)
qed

text \<open>
  From \<open>2 ^ n\<close> up to \<open>2 ^ (n + 1)\<close>, for \<open>n \<le> 52\<close>, the doubles are the multiples of
  \<open>1 / 2 ^ (52 - n)\<close>.
\<close>

lemma ulp_below:
  assumes "2 ^ n \<le> \<bar>x\<bar>" and "\<bar>x\<bar> < 2 * 2 ^ n" and "n \<le> 52"
  shows "ulp x = 1 / 2 ^ (52 - n)"
proof -
  have "ulp x = 2 powr (of_int (int n) - 52)"
  proof (rule ulp_at)
    show "2 powr of_int (int n) \<le> \<bar>x\<bar>" using assms(1) by (simp add: powr_realpow)
    have "(2::real) powr (of_int (int n) + 1) = 2 * 2 ^ n"
      by (simp add: powr_add powr_realpow)
    then show "\<bar>x\<bar> < 2 powr (of_int (int n) + 1)" using assms(2) by simp
    show "- 1022 \<le> int n" by simp
  qed
  also have "of_int (int n) - 52 = - real (52 - n)" using assms(3) by simp
  also have "2 powr (- real (52 - n)) = 1 / 2 ^ (52 - n)"
    by (simp only: powr_minus powr_realpow) (simp add: field_simps)
  finally show ?thesis .
qed

lemma round64_below:
  assumes "2 ^ n \<le> \<bar>x\<bar>" and "\<bar>x\<bar> < 2 * 2 ^ n" and "n \<le> 52"
  shows "round64 x = of_int (round_even (x * 2 ^ (52 - n))) / 2 ^ (52 - n)"
proof -
  have "x \<noteq> 0" using assms(1) by (smt (verit) zero_less_power)
  then show ?thesis
    by (simp add: round64_def ulp_below [OF assms])
qed

lemma ulp_int_small:
  assumes "x \<noteq> 0" and "\<bar>x\<bar> < 2 ^ 53" and "x \<in> \<int>"
  shows "x / ulp x \<in> \<int>"
proof -
  from assms(3) obtain k where k: "x = of_int k" by (auto elim: Ints_cases)
  have k1: "1 \<le> \<bar>x\<bar>" using assms(1) k by (simp flip: of_int_abs add: k)
  define e where "e = \<lfloor>log 2 \<bar>x\<bar>\<rfloor>"
  have e0: "0 \<le> e" using k1 by (simp add: e_def)
  have "log 2 \<bar>x\<bar> < 53"
    using assms(2) k1 by (simp add: log_less_iff powr_realpow flip: powr_numeral)
  then have e52: "e \<le> 52" by (simp add: e_def floor_le_iff)
  have u: "ulp x = 2 powr (of_int e - 52)" using e0 by (simp add: ulp_def e_def)
  have "1 / 2 powr (of_int e - 52) = (2::real) powr (52 - of_int e)"
    by (simp add: powr_diff powr_minus field_simps)
  also have "\<dots> = 2 powr (of_nat (nat (52 - e)))" using e52 by simp
  also have "\<dots> = 2 ^ nat (52 - e)" by (simp only: powr_realpow)
  finally have inv: "1 / 2 powr (of_int e - 52) = (2::real) ^ nat (52 - e)" .
  have "x / ulp x = x * (1 / 2 powr (of_int e - 52))" by (simp only: u) simp
  also have "\<dots> = of_int (k * 2 ^ nat (52 - e))" by (simp only: inv k) simp
  finally show ?thesis by (simp only: Ints_of_int)
qed

text \<open>The integers below \<open>2 ^ 53\<close> are doubles: a sum that is one of them is not rounded.\<close>

lemma round64_int:
  assumes "x \<in> \<int>" and "\<bar>x\<bar> < 2 ^ 53"
  shows "round64 x = x"
proof (cases "x = 0")
  case True
  then show ?thesis by (simp only: round64_0)
next
  case False
  then show ?thesis using assms by (intro round64_exact ulp_int_small)
qed

lemma double_fin: "\<bar>round64 x\<bar> < 2 ^ 54 \<Longrightarrow> double x = Fin (round64 x)"
proof -
  assume "\<bar>round64 x\<bar> < 2 ^ 54"
  moreover have "(2::real) ^ 54 < 2 ^ 1024" by (rule power_strict_increasing) simp_all
  ultimately have "\<not> 2 ^ 1024 \<le> \<bar>round64 x\<bar>" by linarith
  then show ?thesis by (simp only: double_def Let_def if_False)
qed

lemma double_int:
  assumes "x \<in> \<int>" and "\<bar>x\<bar> < 2 ^ 53"
  shows "double x = Fin x"
proof -
  have r: "round64 x = x" using assms by (rule round64_int)
  have "(2::real) ^ 53 < 2 ^ 54" by (rule power_strict_increasing) simp_all
  with assms(2) have "\<bar>round64 x\<bar> < 2 ^ 54" unfolding r by linarith
  from double_fin [OF this] r show ?thesis by simp
qed


subsection \<open>The loop, step by step\<close>

lemma loc_in: "d \<in> fst ` set z \<Longrightarrow> \<exists>v. loc z d = Inr v"
  by (cases "map_of z d") (auto simp: loc_def map_of_eq_None_iff)

lemma wf_init: "wf z (init cash)"
  by (simp add: wf_def init_def)

lemma backtest_loop_append:
  "backtest_loop spread z sz ez xz (is @ js) s =
     (case backtest_loop spread z sz ez xz is s of
        Inl err \<Rightarrow> Inl err
      | Inr s' \<Rightarrow> backtest_loop spread z sz ez xz js s')"
  by (induction "is" arbitrary: s) (auto split: sum.splits)

lemma backtest_upto_0: "backtest_upto spread z cash ez xz 0 = Inr (init cash)"
  by (simp add: backtest_upto_def)

lemma backtest_upto_Suc:
  "backtest_upto spread z cash ez xz (Suc t) =
     (case backtest_upto spread z cash ez xz t of
        Inl err \<Rightarrow> Inl err
      | Inr s \<Rightarrow> backtest_body spread z (cash * 0.1) ez xz (Suc t) s)"
proof -
  have "[1..<Suc (Suc t)] = [1..<Suc t] @ [Suc t]" by simp
  then show ?thesis
    unfolding backtest_upto_def
    by (simp only: backtest_loop_append) (auto split: sum.splits)
qed

lemma body_cases0 [consumes 3, case_names enter_short enter_long close_long close_short hold]:
  assumes "i < length z" and "i < length spread" and "wf z s"
  obtains
    "position s = 0" and "flt (Fin ez) (snd (z ! i))" and
      "backtest_body spread z sz ez xz i s =
         Inr (append_pnl (s\<lparr>position := - 1, entry_price := Some (snd (spread ! i)),
                             entry_date := Some (fst (spread ! i))\<rparr>))"
  | "position s = 0" and "\<not> flt (Fin ez) (snd (z ! i))" and "flt (snd (z ! i)) (Fin (- ez))" and
      "backtest_body spread z sz ez xz i s =
         Inr (append_pnl (s\<lparr>position := 1, entry_price := Some (snd (spread ! i)),
                             entry_date := Some (fst (spread ! i))\<rparr>))"
  | e d zd where "position s = 1" and "flt (Fin (- xz)) (snd (z ! i))" and
      "entry_price s = Some e" and "entry_date s = Some d" and "loc z d = Inr zd" and
      "backtest_body spread z sz ez xz i s =
         Inr (append_pnl (s\<lparr>capital := fadd (capital s)
                   (fmul (Fin (snd (spread ! i) - e)) (fdiv (Fin sz) (std (map snd spread)))),
                 trades := trades s @
                   [\<lparr>t_entry_date = d, t_exit_date = fst (spread ! i), t_position = ''LONG'',
                     t_entry_spread = e, t_exit_spread = snd (spread ! i),
                     t_profit = fmul (Fin (snd (spread ! i) - e))
                                  (fdiv (Fin sz) (std (map snd spread))),
                     t_entry_z = zd, t_exit_z = snd (z ! i)\<rparr>],
                 position := 0, entry_price := None, entry_date := None\<rparr>))"
  | e d zd where "position s = - 1" and "flt (snd (z ! i)) (Fin xz)" and
      "entry_price s = Some e" and "entry_date s = Some d" and "loc z d = Inr zd" and
      "backtest_body spread z sz ez xz i s =
         Inr (append_pnl (s\<lparr>capital := fadd (capital s)
                   (fmul (Fin (e - snd (spread ! i))) (fdiv (Fin sz) (std (map snd spread)))),
                 trades := trades s @
                   [\<lparr>t_entry_date = d, t_exit_date = fst (spread ! i), t_position = ''SHORT'',
                     t_entry_spread = e, t_exit_spread = snd (spread ! i),
                     t_profit = fmul (Fin (e - snd (spread ! i)))
                                  (fdiv (Fin sz) (std (map snd spread))),
                     t_entry_z = zd, t_exit_z = snd (z ! i)\<rparr>],
                 position := 0, entry_price := None, entry_date := None\<rparr>))"
  | "position s = 0 \<longrightarrow> \<not> flt (Fin ez) (snd (z ! i)) \<and> \<not> flt (snd (z ! i)) (Fin (- ez))" and
      "position s = 1 \<longrightarrow> \<not> flt (Fin (- xz)) (snd (z ! i))" and
      "position s = - 1 \<longrightarrow> \<not> flt (snd (z ! i)) (Fin xz)" and
      "backtest_body spread z sz ez xz i s = Inr (append_pnl s)"
proof -
  from assms(3) have pos: "position s = 0 \<or> position s = 1 \<or> position s = - 1"
    by (simp add: wf_def)
  from pos consider "position s = 0" | "position s = 1" | "position s = - 1" by blast
  then show thesis
  proof cases
    case 1
    with assms(1,2) that(1,2,5) show thesis
      by (cases "flt (Fin ez) (snd (z ! i))"; cases "flt (snd (z ! i)) (Fin (- ez))")
         (simp_all add: backtest_body_def)
  next
    case 2
    with assms(3) obtain e d where ed: "entry_price s = Some e" "entry_date s = Some d"
        "d \<in> fst ` set z"
      by (auto simp: wf_def)
    from loc_in [OF ed(3)] obtain zd where zd: "loc z d = Inr zd" by blast
    show thesis
    proof (cases "flt (Fin (- xz)) (snd (z ! i))")
      case True
      with 2 ed zd assms(1,2) that(3) [of e d zd] show thesis
        by (simp add: backtest_body_def close_position_def Let_def)
    next
      case False
      with 2 assms(1,2) that(5) show thesis
        by (simp add: backtest_body_def)
    qed
  next
    case 3
    with assms(3) obtain e d where ed: "entry_price s = Some e" "entry_date s = Some d"
        "d \<in> fst ` set z"
      by (auto simp: wf_def)
    from loc_in [OF ed(3)] obtain zd where zd: "loc z d = Inr zd" by blast
    show thesis
    proof (cases "flt (snd (z ! i)) (Fin xz)")
      case True
      with 3 ed zd assms(1,2) that(4) [of e d zd] show thesis
        by (simp add: backtest_body_def close_position_def Let_def)
    next
      case False
      with 3 assms(1,2) that(5) show thesis
        by (simp add: backtest_body_def)
    qed
  qed
qed

lemma body_cases [consumes 4, case_names enter_short enter_long close_long close_short hold]:
  assumes "i < length z" and "i < length spread" and "wf z s"
    and "backtest_body spread z sz ez xz i s = Inr s'"
  obtains
    "position s = 0" and "flt (Fin ez) (snd (z ! i))" and
      "s' = append_pnl (s\<lparr>position := - 1, entry_price := Some (snd (spread ! i)),
                           entry_date := Some (fst (spread ! i))\<rparr>)"
  | "position s = 0" and "\<not> flt (Fin ez) (snd (z ! i))" and "flt (snd (z ! i)) (Fin (- ez))" and
      "s' = append_pnl (s\<lparr>position := 1, entry_price := Some (snd (spread ! i)),
                           entry_date := Some (fst (spread ! i))\<rparr>)"
  | e d zd where "position s = 1" and "flt (Fin (- xz)) (snd (z ! i))" and
      "entry_price s = Some e" and "entry_date s = Some d" and "loc z d = Inr zd" and
      "s' = append_pnl (s\<lparr>capital := fadd (capital s)
                   (fmul (Fin (snd (spread ! i) - e)) (fdiv (Fin sz) (std (map snd spread)))),
                 trades := trades s @
                   [\<lparr>t_entry_date = d, t_exit_date = fst (spread ! i), t_position = ''LONG'',
                     t_entry_spread = e, t_exit_spread = snd (spread ! i),
                     t_profit = fmul (Fin (snd (spread ! i) - e))
                                  (fdiv (Fin sz) (std (map snd spread))),
                     t_entry_z = zd, t_exit_z = snd (z ! i)\<rparr>],
                 position := 0, entry_price := None, entry_date := None\<rparr>)"
  | e d zd where "position s = - 1" and "flt (snd (z ! i)) (Fin xz)" and
      "entry_price s = Some e" and "entry_date s = Some d" and "loc z d = Inr zd" and
      "s' = append_pnl (s\<lparr>capital := fadd (capital s)
                   (fmul (Fin (e - snd (spread ! i))) (fdiv (Fin sz) (std (map snd spread)))),
                 trades := trades s @
                   [\<lparr>t_entry_date = d, t_exit_date = fst (spread ! i), t_position = ''SHORT'',
                     t_entry_spread = e, t_exit_spread = snd (spread ! i),
                     t_profit = fmul (Fin (e - snd (spread ! i)))
                                  (fdiv (Fin sz) (std (map snd spread))),
                     t_entry_z = zd, t_exit_z = snd (z ! i)\<rparr>],
                 position := 0, entry_price := None, entry_date := None\<rparr>)"
  | "position s = 0 \<longrightarrow> \<not> flt (Fin ez) (snd (z ! i)) \<and> \<not> flt (snd (z ! i)) (Fin (- ez))" and
      "position s = 1 \<longrightarrow> \<not> flt (Fin (- xz)) (snd (z ! i))" and
      "position s = - 1 \<longrightarrow> \<not> flt (snd (z ! i)) (Fin xz)" and
      "s' = append_pnl s"
  using assms(1-3)
proof (cases rule: body_cases0 [where spread = spread and ez = ez and xz = xz and sz = sz])
  case enter_short
  with assms(4) that(1) show thesis by simp
next
  case enter_long
  with assms(4) that(2) show thesis by simp
next
  case (close_long e d zd)
  with assms(4) that(3) [of e d zd] show thesis by simp
next
  case (close_short e d zd)
  with assms(4) that(4) [of e d zd] show thesis by simp
next
  case hold
  with assms(4) that(5) show thesis by simp
qed

subsection \<open>The example run\<close>

lemma ex_compute_spread: "compute_spread ex_x ex_y = Inr (ex_spread, 2)"
  by (simp add: compute_spread_def ex_x_def ex_y_def ex_spread_def is_const_def ols_slope_def
      power2_eq_square)

lemma ex_std: "std (map snd ex_spread) = Fin 5"
proof -
  have "sqrt 25 = sqrt (5\<^sup>2)" by simp
  also have "\<dots> = 5" by simp
  finally have "sqrt 25 = 5" .
  then show ?thesis
    by (simp add: std_def ex_spread_def power2_eq_square)
qed

lemma ex_zscore: "zscore ex_spread = ex_z"
  unfolding zscore_def ex_std
  by (simp add: ex_spread_def ex_z_def mean_def fsub_def double_int)

lemma upt_1_7: "[1..<7] = [1, 2, 3, 4, 5, 6]"
  by (simp add: upt_rec)

lemma ex_loop:
  "backtest_loop ex_spread ex_z (100000 * 0.1) 1 0.2 [1..<length ex_z] (init 100000) =
     Inr \<lparr>position = - 1, pnl = ex_pnl, capital = Fin 130000, trades = ex_trades,
          entry_price = Some 16, entry_date = Some 6\<rparr>"
proof -
  have len: "length ex_z = 7" by (simp add: ex_z_def)
  show ?thesis
    unfolding len upt_1_7
    using ex_std
    by (simp add: backtest_body_def close_position_def append_pnl_def init_def loc_def
        ex_pnl_def ex_trades_def ex_spread_def ex_z_def double_int)
qed

lemma ex_run:
  "backtest_pair ex_x ex_y 100000 1 0.2 = Inr (ex_pnl, ex_spread, ex_z, 2, ex_trades)"
  unfolding backtest_pair_def ex_compute_spread
  by (simp only: sum.case prod.case Let_def ex_zscore ex_loop state.simps)

lemma ex_upto_1_run: "backtest_upto ex_spread ex_z 100000 1 0.2 1 = Inr ex_upto_1"
proof -
  have "[1..<Suc 1] = [1]" by (simp add: upt_rec)
  then show ?thesis
    unfolding backtest_upto_def
    by (simp add: backtest_body_def append_pnl_def init_def ex_upto_1_def ex_spread_def ex_z_def)
qed

lemma ex_upto_2_run: "backtest_upto ex_spread ex_z 100000 1 0.2 2 = Inr ex_upto_2"
proof -
  have "[1..<Suc 2] = [1, 2]" by (simp add: upt_rec)
  then show ?thesis
    unfolding backtest_upto_def
    by (simp add: backtest_body_def append_pnl_def init_def ex_upto_2_def ex_spread_def ex_z_def)
qed

lemma ex_upto_6_run: "backtest_upto ex_spread ex_z 100000 1 0.2 6 = Inr ex_final"
proof -
  have "Suc 6 = length ex_z" by (simp add: ex_z_def)
  then show ?thesis
    unfolding backtest_upto_def ex_final_def by (simp only: ex_loop)
qed

lemma ex_sorted: "sorted_wrt (<) (map fst ex_x)"
  by (simp add: ex_x_def)




subsection \<open>The run with rounded sums\<close>

lemma rnd_compute_spread: "compute_spread rnd_x rnd_y = Inr (rnd_y, 0)"
  by (simp add: compute_spread_def rnd_x_def rnd_y_def is_const_def ols_slope_def)

lemma rnd_std: "std (map snd rnd_y) = Fin 4"
proof -
  have "sqrt 16 = sqrt (4\<^sup>2)" by simp
  also have "\<dots> = 4" by simp
  finally have "sqrt 16 = 4" .
  then show ?thesis
    by (simp add: std_def rnd_y_def power2_eq_square)
qed

lemma rnd_zscore: "zscore rnd_y = rnd_z"
  unfolding zscore_def rnd_std
  by (simp add: rnd_y_def rnd_z_def mean_def fsub_def double_int)

text \<open>
  The capital after the first trade: \<open>2814749767106570 + 633318697598978.25\<close> lies halfway
  between the doubles \<open>3448068464705548\<close> and \<open>3448068464705548.5\<close>, and the first of them
  has the even significand.
\<close>

lemma rnd_sum_1: "double (13792273858822193 / 4) = Fin 3448068464705548"
proof -
  have "round64 (13792273858822193 / 4) =
      of_int (round_even (13792273858822193 / 4 * 2 ^ (52 - 51))) / 2 ^ (52 - 51)"
    by (rule round64_below) simp_all
  also have "\<dots> = 3448068464705548" by (simp add: round_even_def)
  finally have r: "round64 (13792273858822193 / 4) = 3448068464705548" .
  then have "\<bar>round64 (13792273858822193 / 4)\<bar> < 2 ^ 54" by simp
  from double_fin [OF this] r show ?thesis by simp
qed

text \<open>The capital after the second trade, \<open>3448068464705548 + 351843720888321.25\<close>.\<close>

lemma rnd_sum_2: "double (15199648742375477 / 4) = Fin 3799912185593869"
proof -
  have "round64 (15199648742375477 / 4) =
      of_int (round_even (15199648742375477 / 4 * 2 ^ (52 - 51))) / 2 ^ (52 - 51)"
    by (rule round64_below) simp_all
  also have "\<dots> = 3799912185593869" by (simp add: round_even_def)
  finally have r: "round64 (15199648742375477 / 4) = 3799912185593869" .
  then have "\<bar>round64 (15199648742375477 / 4)\<bar> < 2 ^ 54" by simp
  from double_fin [OF this] r show ?thesis by simp
qed

lemma upt_1_6: "[1..<6] = [1, 2, 3, 4, 5]"
  by (simp add: upt_rec)

lemma rnd_loop:
  "backtest_loop rnd_y rnd_z (2814749767106570 * 0.1) 1 0.2 [1..<length rnd_z]
     (init 2814749767106570) =
     Inr \<lparr>position = 0, pnl = rnd_pnl, capital = Fin 3799912185593869, trades = rnd_trades,
          entry_price = None, entry_date = None\<rparr>"
proof -
  have len: "length rnd_z = 6" by (simp add: rnd_z_def)
  show ?thesis
    unfolding len upt_1_6
    using rnd_std
    by (simp add: backtest_body_def close_position_def append_pnl_def init_def loc_def
        rnd_pnl_def rnd_trades_def rnd_y_def rnd_z_def rnd_sum_1 rnd_sum_2)
qed

lemma rnd_run:
  "backtest_pair rnd_x rnd_y 2814749767106570 1 0.2 =
     Inr (rnd_pnl, rnd_y, rnd_z, 0, rnd_trades)"
  unfolding backtest_pair_def rnd_compute_spread
  by (simp only: sum.case prod.case Let_def rnd_zscore rnd_loop state.simps)

text \<open>
  The two profits are doubles and so is their sum \<open>985162418487299.5\<close>; the initial capital
  plus that sum is the double \<open>3799912185593869.5\<close>.
\<close>

lemma double_below:
  assumes "2 ^ n \<le> \<bar>x\<bar>" and "\<bar>x\<bar> < 2 * 2 ^ n" and "n \<le> 52" and "x * 2 ^ (52 - n) \<in> \<int>"
  shows "double x = Fin x"
proof -
  from assms(4) obtain k where k: "x * 2 ^ (52 - n) = of_int k" by (auto elim: Ints_cases)
  have "round64 x = of_int (round_even (x * 2 ^ (52 - n))) / 2 ^ (52 - n)"
    using assms(1-3) by (rule round64_below)
  also have "\<dots> = x * 2 ^ (52 - n) / 2 ^ (52 - n)" by (simp only: k round_even_int)
  also have "\<dots> = x" by simp
  finally have r: "round64 x = x" .
  have "2 * (2::real) ^ n = 2 ^ Suc n" by simp
  also have "\<dots> < 2 ^ 54" using assms(3) by (intro power_strict_increasing) simp_all
  finally have "\<bar>round64 x\<bar> < 2 ^ 54" using assms(2) r by simp
  from double_fin [OF this] r show ?thesis by simp
qed

lemma rnd_total:
  "fadd (Fin 2814749767106570) (fsum (map t_profit rnd_trades)) = Fin (7599824371187739 / 2)"
proof -
  have 1: "double (2533274790395913 / 4) = Fin (2533274790395913 / 4)"
    by (rule double_below [where n = 49]) simp_all
  have 2: "double (1970324836974599 / 2) = Fin (1970324836974599 / 2)"
    by (rule double_below [where n = 49]) simp_all
  have 3: "double (7599824371187739 / 2) = Fin (7599824371187739 / 2)"
    by (rule double_below [where n = 51]) simp_all
  show ?thesis
    by (simp add: fsum_def rnd_trades_def 1 2 3)
qed

subsection \<open>Reachable states\<close>

lemma label_in:
  assumes "map fst z = map fst spread" and "i < length z"
  shows "fst (spread ! i) \<in> fst ` set z"
proof -
  from assms have "length spread = length z" by (metis length_map)
  with assms have "fst (spread ! i) = fst (z ! i)" by (metis nth_map)
  with assms(2) show ?thesis by (metis imageI nth_mem)
qed

lemma body_wf:
  assumes "map fst z = map fst spread" and "i < length z" and "wf z s"
    and "backtest_body spread z sz ez xz i s = Inr s'"
  shows "wf z s'"
proof -
  from assms(1) have len: "length spread = length z" by (metis length_map)
  with assms(2) have i: "i < length spread" by simp
  note lab = label_in [OF assms(1,2)]
  from assms(2) i assms(3,4) show ?thesis
  proof (cases rule: body_cases)
    case enter_short
    with lab show ?thesis by (simp add: wf_def append_pnl_def)
  next
    case enter_long
    with lab show ?thesis by (simp add: wf_def append_pnl_def)
  next
    case (close_long e d zd)
    then show ?thesis by (simp add: wf_def append_pnl_def)
  next
    case (close_short e d zd)
    then show ?thesis by (simp add: wf_def append_pnl_def)
  next
    case hold
    with assms(3) show ?thesis by (simp add: wf_def append_pnl_def)
  qed
qed

lemma body_total:
  assumes "map fst z = map fst spread" and "i < length z" and "wf z s"
  shows "\<exists>s'. backtest_body spread z sz ez xz i s = Inr s'"
proof -
  from assms(1) have len: "length spread = length z" by (metis length_map)
  with assms(2) have i: "i < length spread" by simp
  from assms(2) i assms(3) show ?thesis
    by (cases rule: body_cases0 [where spread = spread and ez = ez and xz = xz and sz = sz]) auto
qed

lemma upto_invariant:
  assumes idx: "map fst z = map fst spread" and t: "t < length z"
    and base: "P 0 (init cash)"
    and step: "\<And>i s s'. \<lbrakk>Suc i < length z; wf z s; P i s;
        backtest_upto spread z cash ez xz i = Inr s;
        backtest_upto spread z cash ez xz (Suc i) = Inr s';
        backtest_body spread z (cash * 0.1) ez xz (Suc i) s = Inr s'\<rbrakk> \<Longrightarrow> P (Suc i) s'"
  shows "\<exists>s. backtest_upto spread z cash ez xz t = Inr s \<and> wf z s \<and> P t s"
  using t
proof (induction t)
  case 0
  with base show ?case by (simp add: backtest_upto_0 wf_init)
next
  case (Suc t)
  then obtain s where s: "backtest_upto spread z cash ez xz t = Inr s" "wf z s" "P t s"
    by auto
  from body_total [OF idx Suc.prems s(2)]
  obtain s' where b: "backtest_body spread z (cash * 0.1) ez xz (Suc t) s = Inr s'" by blast
  with s(1) have u: "backtest_upto spread z cash ez xz (Suc t) = Inr s'"
    by (simp add: backtest_upto_Suc)
  from step [OF Suc.prems s(2,3) s(1) u b] body_wf [OF idx Suc.prems s(2) b] u
  show ?case by simp
qed

lemma upto_total:
  assumes "map fst z = map fst spread" and "t < length z"
  shows "\<exists>s. backtest_upto spread z cash ez xz t = Inr s \<and> wf z s"
  using upto_invariant [OF assms, where P = "\<lambda>_ _. True"] by simp

lemma body_pnl:
  assumes "i < length z" and "i < length spread" and "wf z s"
    and "backtest_body spread z sz ez xz i s = Inr s'"
  shows "pnl s' = pnl s @ [capital s']"
  using assms by (cases rule: body_cases) (simp_all add: append_pnl_def)

lemma zscore_labels: "map fst (zscore spread) = map fst spread"
  by (simp add: zscore_def split_def comp_def)

lemma compute_spread_labels:
  assumes "compute_spread x y = Inr (spread, beta)"
  shows "map fst spread = map fst x" and "x \<noteq> []" and "map fst y = map fst x"
proof -
  from assms show 3: "map fst y = map fst x" and 2: "x \<noteq> []"
    by (auto simp: compute_spread_def split: if_splits)
  from 3 have len: "length y = length x" by (metis length_map)
  from assms have "spread = map (\<lambda>((t, a), (_, b)). (t, b - beta * a)) (zip x y)"
    by (auto simp: compute_spread_def Let_def split: if_splits)
  then have "map fst spread = map fst (map fst (zip x y))"
    by (simp add: split_def comp_def)
  also have "\<dots> = map fst x" using len by simp
  finally show "map fst spread = map fst x" .
qed

lemma backtest_pairE:
  assumes "backtest_pair x y cash ez xz = Inr (P, spread, z, beta, trs)"
  obtains s where "compute_spread x y = Inr (spread, beta)" and "z = zscore spread"
    and "map fst z = map fst spread" and "length z = length x" and "0 < length z"
    and "backtest_upto spread z cash ez xz (length z - 1) = Inr s"
    and "wf z s" and "P = pnl s" and "trs = trades s"
proof -
  from assms obtain s where cs: "compute_spread x y = Inr (spread, beta)"
    and z: "z = zscore spread"
    and l: "backtest_loop spread z (cash * 0.1) ez xz [1..<length z] (init cash) = Inr s"
    and out: "P = pnl s" "trs = trades s"
    by (auto simp: backtest_pair_def Let_def split: sum.splits prod.splits)
  from z have idx: "map fst z = map fst spread" by (simp add: zscore_labels)
  from compute_spread_labels [OF cs] idx have len: "length z = length x" "0 < length z"
    by (metis length_map, metis length_map length_greater_0_conv)
  from len(2) have "[1..<length z] = [1..<Suc (length z - 1)]" by simp
  with l have u: "backtest_upto spread z cash ez xz (length z - 1) = Inr s"
    by (simp add: backtest_upto_def)
  from upto_total [OF idx, of "length z - 1" cash ez xz] len(2) u have "wf z s" by simp
  with cs z idx len u out that show thesis by blast
qed

text \<open>A run raises nothing once the spread is computed.\<close>

lemma backtest_pair_returns:
  assumes "compute_spread x y = Inr (spread, beta)"
  shows "\<exists>P trs. backtest_pair x y cash entry_z exit_z = Inr (P, spread, zscore spread, beta, trs)"
proof -
  let ?z = "zscore spread"
  have idx: "map fst ?z = map fst spread" by (rule zscore_labels)
  from compute_spread_labels(1,2) [OF assms] idx have pos: "0 < length ?z"
    by (metis length_map length_greater_0_conv)
  then have "length ?z - 1 < length ?z" by simp
  from upto_total [OF idx this, of cash entry_z exit_z]
  obtain s where "backtest_upto spread ?z cash entry_z exit_z (length ?z - 1) = Inr s" by blast
  moreover from pos have "[1..<Suc (length ?z - 1)] = [1..<length ?z]" by simp
  ultimately have "backtest_loop spread ?z (cash * 0.1) entry_z exit_z [1..<length ?z] (init cash)
      = Inr s"
    by (simp add: backtest_upto_def)
  with assms show ?thesis by (simp add: backtest_pair_def)
qed

subsection \<open>Profit and capital\<close>

lemma body_profit_rule:
  assumes "i < length z" and "i < length spread" and "wf z s"
    and "backtest_body spread z sz ez xz i s = Inr s'"
    and "\<forall>tr \<in> set (trades s). profit_rule sz (std (map snd spread)) tr"
  shows "\<forall>tr \<in> set (trades s'). profit_rule sz (std (map snd spread)) tr"
  using assms(1-4)
  by (cases rule: body_cases) (use assms(5) in \<open>simp_all add: append_pnl_def profit_rule_def\<close>)

lemma body_capital_fold:
  assumes "i < length z" and "i < length spread" and "wf z s"
    and "backtest_body spread z sz ez xz i s = Inr s'"
    and "capital s = foldl fadd c (map t_profit (trades s))"
  shows "capital s' = foldl fadd c (map t_profit (trades s'))"
  using assms(1-4)
  by (cases rule: body_cases) (use assms(5) in \<open>simp_all add: append_pnl_def\<close>)

lemma upto_profit_rule:
  assumes idx: "map fst z = map fst spread" and t: "t < length z"
    and u: "backtest_upto spread z cash ez xz t = Inr s"
  shows "\<forall>tr \<in> set (trades s). profit_rule (cash * 0.1) (std (map snd spread)) tr"
proof -
  from idx have len: "length spread = length z" by (metis length_map)
  have "\<exists>s. backtest_upto spread z cash ez xz t = Inr s \<and> wf z s \<and>
      (\<forall>tr \<in> set (trades s). profit_rule (cash * 0.1) (std (map snd spread)) tr)"
  proof (rule upto_invariant [OF idx t])
    show "\<forall>tr \<in> set (trades (init cash)). profit_rule (cash * 0.1) (std (map snd spread)) tr"
      by (simp add: init_def)
  next
    fix i s s'
    assume "Suc i < length z" "wf z s"
      "\<forall>tr \<in> set (trades s). profit_rule (cash * 0.1) (std (map snd spread)) tr"
      "backtest_body spread z (cash * 0.1) ez xz (Suc i) s = Inr s'"
    then show "\<forall>tr \<in> set (trades s'). profit_rule (cash * 0.1) (std (map snd spread)) tr"
      using body_profit_rule [of "Suc i" z spread s "cash * 0.1" ez xz s'] len by simp
  qed
  with u show ?thesis by simp
qed

lemma upto_capital_fold:
  assumes idx: "map fst z = map fst spread" and t: "t < length z"
    and u: "backtest_upto spread z cash ez xz t = Inr s"
  shows "capital s = foldl fadd (Fin cash) (map t_profit (trades s))"
proof -
  from idx have len: "length spread = length z" by (metis length_map)
  have "\<exists>s. backtest_upto spread z cash ez xz t = Inr s \<and> wf z s \<and>
      capital s = foldl fadd (Fin cash) (map t_profit (trades s))"
  proof (rule upto_invariant [OF idx t])
    show "capital (init cash) = foldl fadd (Fin cash) (map t_profit (trades (init cash)))"
      by (simp add: init_def)
  next
    fix i s s'
    assume "Suc i < length z" "wf z s"
      "capital s = foldl fadd (Fin cash) (map t_profit (trades s))"
      "backtest_body spread z (cash * 0.1) ez xz (Suc i) s = Inr s'"
    then show "capital s' = foldl fadd (Fin cash) (map t_profit (trades s'))"
      using body_capital_fold [of "Suc i" z spread s "cash * 0.1" ez xz s' "Fin cash"] len
      by simp
  qed
  with u show ?thesis by simp
qed

subsection \<open>The ledger invariant\<close>

lemma trade_steps_append:
  assumes "trade_steps spread z P tr e x"
  shows "trade_steps spread z (P @ [c]) tr e x"
proof -
  from assms have x: "1 \<le> e" "e < x" "x < length P"
    and lab: "t_entry_date tr = fst (spread ! e)" "t_exit_date tr = fst (spread ! x)"
      "t_entry_spread tr = snd (spread ! e)" "t_exit_spread tr = snd (spread ! x)"
      "t_exit_z tr = snd (z ! x)"
    and flat: "\<forall>k \<in> {e - 1..<x}. P ! (e - 1) = P ! k"
    and px: "P ! x = fadd (P ! (x - 1)) (t_profit tr)"
    unfolding trade_steps_def by blast+
  have old: "(P @ [c]) ! k = P ! k" if "k \<le> x" for k
    using that x by (simp add: nth_append)
  have "(P @ [c]) ! (e - 1) = (P @ [c]) ! k" if "k \<in> {e - 1..<x}" for k
  proof -
    from flat that have "P ! (e - 1) = P ! k" by (rule bspec)
    moreover from that have "k \<le> x" "e - 1 \<le> x" by simp_all
    ultimately show ?thesis by (simp add: old)
  qed
  then have 1: "\<forall>k \<in> {e - 1..<x}. (P @ [c]) ! (e - 1) = (P @ [c]) ! k" by blast
  from px have 2: "(P @ [c]) ! x = fadd ((P @ [c]) ! (x - 1)) (t_profit tr)"
    by (simp add: old)
  from x have 3: "x < length (P @ [c])" by simp
  from 1 2 3 x(1,2) lab show ?thesis unfolding trade_steps_def by blast
qed

lemma open_since_hold:
  assumes "open_since spread P t s e" and "length P = Suc t"
    and "entry_date s' = entry_date s" and "entry_price s' = entry_price s" and "c = P ! t"
  shows "open_since spread (P @ [c]) (Suc t) s' e"
proof -
  from assms(1) have e: "1 \<le> e" "e \<le> t" and flat: "\<forall>k \<in> {e - 1..t}. P ! (e - 1) = P ! k"
    and ent: "entry_date s = Some (fst (spread ! e))" "entry_price s = Some (snd (spread ! e))"
    unfolding open_since_def by blast+
  from e assms(2) have "e - 1 < length P" by arith
  then have e1: "(P @ [c]) ! (e - 1) = P ! (e - 1)" by (simp add: nth_append)
  have "(P @ [c]) ! (e - 1) = (P @ [c]) ! k" if "k \<in> {e - 1..Suc t}" for k
  proof (cases "k = Suc t")
    case True
    from e have "t \<in> {e - 1..t}" by simp
    with flat have "P ! (e - 1) = P ! t" by (rule bspec)
    with True assms(2,5) e1 show ?thesis by (simp add: nth_append)
  next
    case False
    with that have k: "k \<in> {e - 1..t}" by simp
    with flat have "P ! (e - 1) = P ! k" by (rule bspec)
    moreover from k assms(2) have "(P @ [c]) ! k = P ! k" by (simp add: nth_append)
    ultimately show ?thesis using e1 by simp
  qed
  then have "\<forall>k \<in> {e - 1..Suc t}. (P @ [c]) ! (e - 1) = (P @ [c]) ! k" by blast
  with e ent assms(3,4) show ?thesis unfolding open_since_def by simp
qed

lemma open_since_enter:
  assumes "length P = Suc t" and "entry_date s' = Some (fst (spread ! Suc t))"
    and "entry_price s' = Some (snd (spread ! Suc t))" and "c = P ! t"
  shows "open_since spread (P @ [c]) (Suc t) s' (Suc t)"
proof -
  have "(P @ [c]) ! t = (P @ [c]) ! k" if "k \<in> {t..Suc t}" for k
  proof (cases "k = Suc t")
    case True
    with assms(1,4) show ?thesis by (simp add: nth_append)
  next
    case False
    with that have "k = t" by simp
    then show ?thesis by simp
  qed
  then have "\<forall>k \<in> {Suc t - 1..Suc t}. (P @ [c]) ! (Suc t - 1) = (P @ [c]) ! k" by simp
  with assms(2,3) show ?thesis unfolding open_since_def by simp
qed

lemma trade_steps_close:
  assumes "open_since spread P t s e" and "length P = Suc t"
    and "entry_date s = Some (t_entry_date tr)" and "entry_price s = Some (t_entry_spread tr)"
    and "t_exit_date tr = fst (spread ! Suc t)" and "t_exit_spread tr = snd (spread ! Suc t)"
    and "t_exit_z tr = snd (z ! Suc t)"
  shows "trade_steps spread z (P @ [fadd (P ! t) (t_profit tr)]) tr e (Suc t)"
proof -
  from assms(1) have e: "1 \<le> e" "e \<le> t" and flat: "\<forall>k \<in> {e - 1..t}. P ! (e - 1) = P ! k"
    and ent: "entry_date s = Some (fst (spread ! e))" "entry_price s = Some (snd (spread ! e))"
    unfolding open_since_def by blast+
  let ?P = "P @ [fadd (P ! t) (t_profit tr)]"
  from e assms(2) have "e - 1 < length P" by arith
  then have e1: "?P ! (e - 1) = P ! (e - 1)" by (simp add: nth_append)
  have "?P ! (e - 1) = ?P ! k" if "k \<in> {e - 1..<Suc t}" for k
  proof -
    from that have k: "k \<in> {e - 1..t}" by simp
    with flat have "P ! (e - 1) = P ! k" by (rule bspec)
    moreover from k assms(2) have "?P ! k = P ! k" by (simp add: nth_append)
    ultimately show ?thesis using e1 by simp
  qed
  then have 1: "\<forall>k \<in> {e - 1..<Suc t}. ?P ! (e - 1) = ?P ! k" by blast
  have 2: "?P ! Suc t = fadd (?P ! (Suc t - 1)) (t_profit tr)"
    using assms(2) by (simp add: nth_append)
  from ent assms(3,4) have 3: "t_entry_date tr = fst (spread ! e)"
    "t_entry_spread tr = snd (spread ! e)" by simp_all
  from e have 4: "1 \<le> e" "e < Suc t" by simp_all
  from assms(2) have 5: "Suc t < length ?P" by simp
  from 1 2 3 4 5 assms(5-7) show ?thesis unfolding trade_steps_def by blast
qed

lemma ledger_exits:
  assumes "ledger_inv spread z t s" and "tr \<in> set (trades s)"
  shows "\<exists>x. x < Suc t \<and> t_exit_date tr = fst (spread ! x)"
proof -
  from assms obtain e x where "trade_steps spread z (pnl s) tr e x"
    unfolding ledger_inv_def by blast
  moreover from assms(1) have "length (pnl s) = Suc t" by (simp add: ledger_inv_def)
  ultimately have "x < Suc t \<and> t_exit_date tr = fst (spread ! x)"
    by (simp add: trade_steps_def)
  then show ?thesis ..
qed

lemma ledger_steps_append:
  assumes "ledger_inv spread z t s" and "tr \<in> set (trades s)"
  shows "\<exists>e x. trade_steps spread z (pnl s @ [c]) tr e x"
proof -
  from assms obtain e x where "trade_steps spread z (pnl s) tr e x"
    unfolding ledger_inv_def by blast
  then have "trade_steps spread z (pnl s @ [c]) tr e x" by (rule trade_steps_append)
  then show ?thesis by blast
qed

lemma ledger_chain_Suc:
  assumes "ledger_inv spread z t s" and "Suc k < length (trades s)"
  shows "\<exists>x e. x < e \<and> e \<le> Suc t \<and> t_exit_date (trades s ! k) = fst (spread ! x) \<and>
                 t_entry_date (trades s ! Suc k) = fst (spread ! e)"
proof -
  from assms obtain x e where "x < e" "e \<le> t"
    "t_exit_date (trades s ! k) = fst (spread ! x)"
    "t_entry_date (trades s ! Suc k) = fst (spread ! e)"
    unfolding ledger_inv_def by blast
  then have "x < e \<and> e \<le> Suc t \<and> t_exit_date (trades s ! k) = fst (spread ! x) \<and>
                 t_entry_date (trades s ! Suc k) = fst (spread ! e)" by simp
  then show ?thesis by blast
qed

lemma ledger_invI:
  assumes "length (pnl s) = Suc t" and "pnl s ! t = capital s"
    and "\<And>tr. tr \<in> set (trades s) \<Longrightarrow> \<exists>e x. trade_steps spread z (pnl s) tr e x"
    and "\<And>k. Suc k < length (trades s) \<Longrightarrow>
         \<exists>x e. x < e \<and> e \<le> t \<and> t_exit_date (trades s ! k) = fst (spread ! x) \<and>
                 t_entry_date (trades s ! Suc k) = fst (spread ! e)"
    and "position s \<noteq> 0 \<Longrightarrow>
         \<exists>e. open_since spread (pnl s) t s e \<and>
              (\<forall>tr \<in> set (trades s). \<exists>x. x < e \<and> t_exit_date tr = fst (spread ! x))"
  shows "ledger_inv spread z t s"
  unfolding ledger_inv_def using assms by blast

lemma ledger_enter:
  assumes inv: "ledger_inv spread z t s"
    and s': "s' = append_pnl (s\<lparr>position := p, entry_price := Some (snd (spread ! Suc t)),
                                 entry_date := Some (fst (spread ! Suc t))\<rparr>)"
  shows "ledger_inv spread z (Suc t) s'"
proof (rule ledger_invI)
  from inv have len: "length (pnl s) = Suc t" and cap: "pnl s ! t = capital s"
    by (simp_all add: ledger_inv_def)
  from s' have eq: "trades s' = trades s" "capital s' = capital s"
    "entry_date s' = Some (fst (spread ! Suc t))"
    "entry_price s' = Some (snd (spread ! Suc t))" "pnl s' = pnl s @ [capital s]"
    by (simp_all add: append_pnl_def)
  from eq(5) len show "length (pnl s') = Suc (Suc t)" by simp
  from eq(2,5) len show "pnl s' ! Suc t = capital s'" by (simp add: nth_append)
  show "\<exists>e x. trade_steps spread z (pnl s') tr e x" if "tr \<in> set (trades s')" for tr
    using ledger_steps_append [OF inv, of tr "capital s"] that eq(1,5) by simp
  show "\<exists>x e. x < e \<and> e \<le> Suc t \<and> t_exit_date (trades s' ! k) = fst (spread ! x) \<and>
                 t_entry_date (trades s' ! Suc k) = fst (spread ! e)"
    if "Suc k < length (trades s')" for k
    using ledger_chain_Suc [OF inv, of k] that eq(1) by simp
  from open_since_enter [OF len eq(3,4), of "capital s"] cap eq(5)
  have "open_since spread (pnl s') (Suc t) s' (Suc t)" by simp
  moreover have "\<forall>tr \<in> set (trades s'). \<exists>x. x < Suc t \<and> t_exit_date tr = fst (spread ! x)"
    using ledger_exits [OF inv] eq(1) by simp
  ultimately show "\<exists>e. open_since spread (pnl s') (Suc t) s' e \<and>
        (\<forall>tr \<in> set (trades s'). \<exists>x. x < e \<and> t_exit_date tr = fst (spread ! x))"
    by blast
qed

lemma ledger_hold:
  assumes inv: "ledger_inv spread z t s" and s': "s' = append_pnl s"
  shows "ledger_inv spread z (Suc t) s'"
proof (rule ledger_invI)
  from inv have len: "length (pnl s) = Suc t" and cap: "pnl s ! t = capital s"
    by (simp_all add: ledger_inv_def)
  from s' have eq: "trades s' = trades s" "capital s' = capital s"
    "position s' = position s" "entry_date s' = entry_date s"
    "entry_price s' = entry_price s" "pnl s' = pnl s @ [capital s]"
    by (simp_all add: append_pnl_def)
  from eq(6) len show "length (pnl s') = Suc (Suc t)" by simp
  from eq(2,6) len show "pnl s' ! Suc t = capital s'" by (simp add: nth_append)
  show "\<exists>e x. trade_steps spread z (pnl s') tr e x" if "tr \<in> set (trades s')" for tr
    using ledger_steps_append [OF inv, of tr "capital s"] that eq(1,6) by simp
  show "\<exists>x e. x < e \<and> e \<le> Suc t \<and> t_exit_date (trades s' ! k) = fst (spread ! x) \<and>
                 t_entry_date (trades s' ! Suc k) = fst (spread ! e)"
    if "Suc k < length (trades s')" for k
    using ledger_chain_Suc [OF inv, of k] that eq(1) by simp
  show "\<exists>e. open_since spread (pnl s') (Suc t) s' e \<and>
        (\<forall>tr \<in> set (trades s'). \<exists>x. x < e \<and> t_exit_date tr = fst (spread ! x))"
    if "position s' \<noteq> 0"
  proof -
    from that eq(3) inv obtain e0 where e0: "open_since spread (pnl s) t s e0"
      and before: "\<forall>tr \<in> set (trades s). \<exists>x. x < e0 \<and> t_exit_date tr = fst (spread ! x)"
      unfolding ledger_inv_def by auto
    from open_since_hold [OF e0 len eq(4,5), of "capital s"] cap eq(6)
    have "open_since spread (pnl s') (Suc t) s' e0" by simp
    with before eq(1) show ?thesis by auto
  qed
qed

lemma ledger_close:
  assumes inv: "ledger_inv spread z t s"
    and p: "position s \<noteq> 0" and ent: "entry_price s = Some e" "entry_date s = Some d"
    and s': "s' = append_pnl (s\<lparr>capital := fadd (capital s) pr,
                 trades := trades s @
                   [\<lparr>t_entry_date = d, t_exit_date = fst (spread ! Suc t), t_position = lab,
                     t_entry_spread = e, t_exit_spread = snd (spread ! Suc t),
                     t_profit = pr, t_entry_z = zd, t_exit_z = snd (z ! Suc t)\<rparr>],
                 position := 0, entry_price := None, entry_date := None\<rparr>)"
  shows "ledger_inv spread z (Suc t) s'"
proof (rule ledger_invI)
  define tr where "tr = \<lparr>t_entry_date = d, t_exit_date = fst (spread ! Suc t),
      t_position = lab, t_entry_spread = e, t_exit_spread = snd (spread ! Suc t),
      t_profit = pr, t_entry_z = zd, t_exit_z = snd (z ! Suc t)\<rparr>"
  from inv have len: "length (pnl s) = Suc t" and cap: "pnl s ! t = capital s"
    by (simp_all add: ledger_inv_def)
  from s' have eq: "trades s' = trades s @ [tr]" "capital s' = fadd (capital s) pr"
    "position s' = 0" "pnl s' = pnl s @ [fadd (capital s) pr]"
    by (simp_all add: append_pnl_def tr_def)
  have trf: "t_entry_date tr = d" "t_entry_spread tr = e" "t_profit tr = pr"
    "t_exit_date tr = fst (spread ! Suc t)" "t_exit_spread tr = snd (spread ! Suc t)"
    "t_exit_z tr = snd (z ! Suc t)"
    by (simp_all add: tr_def)
  from p inv obtain e0 where e0: "open_since spread (pnl s) t s e0"
    and before: "\<forall>tr \<in> set (trades s). \<exists>x. x < e0 \<and> t_exit_date tr = fst (spread ! x)"
    unfolding ledger_inv_def by blast
  from e0 have e0t: "e0 \<le> t" and e0d: "entry_date s = Some (fst (spread ! e0))"
    unfolding open_since_def by blast+
  from eq(4) len show "length (pnl s') = Suc (Suc t)" by simp
  from eq(2,4) len show "pnl s' ! Suc t = capital s'" by (simp add: nth_append)
  from trade_steps_close [OF e0 len, of tr z] ent trf
  have "trade_steps spread z (pnl s @ [fadd (pnl s ! t) pr]) tr e0 (Suc t)" by simp
  with cap eq(4) have new: "trade_steps spread z (pnl s') tr e0 (Suc t)" by simp
  show "\<exists>e x. trade_steps spread z (pnl s') tr' e x" if "tr' \<in> set (trades s')" for tr'
  proof (cases "tr' = tr")
    case True
    with new show ?thesis by blast
  next
    case False
    with that eq(1) have "tr' \<in> set (trades s)" by simp
    from ledger_steps_append [OF inv this, of "fadd (capital s) pr"] eq(4)
    show ?thesis by simp
  qed
  show "\<exists>x e. x < e \<and> e \<le> Suc t \<and> t_exit_date (trades s' ! k) = fst (spread ! x) \<and>
                 t_entry_date (trades s' ! Suc k) = fst (spread ! e)"
    if k: "Suc k < length (trades s')" for k
  proof (cases "Suc k < length (trades s)")
    case True
    from ledger_chain_Suc [OF inv True] True eq(1) show ?thesis by (simp add: nth_append)
  next
    case False
    with k eq(1) have k': "Suc k = length (trades s)" by simp
    then have "trades s ! k \<in> set (trades s)" by simp
    with before obtain x where x: "x < e0" "t_exit_date (trades s ! k) = fst (spread ! x)"
      by blast
    from k' eq(1) have "trades s' ! k = trades s ! k" "trades s' ! Suc k = tr"
      by (simp_all add: nth_append)
    moreover from e0d ent(2) trf(1) have "t_entry_date tr = fst (spread ! e0)" by simp
    ultimately have "x < e0 \<and> e0 \<le> Suc t \<and> t_exit_date (trades s' ! k) = fst (spread ! x) \<and>
                 t_entry_date (trades s' ! Suc k) = fst (spread ! e0)"
      using x e0t by simp
    then show ?thesis by blast
  qed
  show "\<exists>e. open_since spread (pnl s') (Suc t) s' e \<and>
        (\<forall>tr \<in> set (trades s'). \<exists>x. x < e \<and> t_exit_date tr = fst (spread ! x))"
    if "position s' \<noteq> 0"
    using that eq(3) by simp
qed

lemma body_ledger_inv:
  assumes i: "Suc t < length z" "Suc t < length spread" and wf: "wf z s"
    and b: "backtest_body spread z sz ez xz (Suc t) s = Inr s'"
    and inv: "ledger_inv spread z t s"
  shows "ledger_inv spread z (Suc t) s'"
  using i wf b
proof (cases rule: body_cases)
  case enter_short
  from ledger_enter [OF inv enter_short(3)] show ?thesis .
next
  case enter_long
  from ledger_enter [OF inv enter_long(4)] show ?thesis .
next
  case (close_long e d zd)
  from close_long(1) have "position s \<noteq> 0" by simp
  from ledger_close [OF inv this close_long(3,4,6)] show ?thesis .
next
  case (close_short e d zd)
  from close_short(1) have "position s \<noteq> 0" by simp
  from ledger_close [OF inv this close_short(3,4,6)] show ?thesis .
next
  case hold
  from ledger_hold [OF inv hold(4)] show ?thesis .
qed

lemma upto_ledger_inv:
  assumes idx: "map fst z = map fst spread" and t: "t < length z"
  shows "\<exists>s. backtest_upto spread z cash ez xz t = Inr s \<and> wf z s \<and> ledger_inv spread z t s"
proof (rule upto_invariant [OF idx t])
  show "ledger_inv spread z 0 (init cash)"
    by (simp add: ledger_inv_def init_def)
next
  fix i s s'
  assume "Suc i < length z" "wf z s" "ledger_inv spread z i s"
    "backtest_body spread z (cash * 0.1) ez xz (Suc i) s = Inr s'"
  moreover from idx have "length spread = length z" by (metis length_map)
  ultimately show "ledger_inv spread z (Suc i) s'"
    using body_ledger_inv [of i z spread s "cash * 0.1" ez xz s'] by simp
qed

subsection \<open>The trajectory\<close>

lemma body_capital:
  assumes "i < length z" and "i < length spread" and "wf z s"
    and "backtest_body spread z sz ez xz i s = Inr s'"
  shows "capital s' = capital s \<or> length (trades s') = Suc (length (trades s))"
  using assms by (cases rule: body_cases) (simp_all add: append_pnl_def)

lemma upto_pnl_nth:
  assumes idx: "map fst z = map fst spread" and t: "t < length z"
    and u: "backtest_upto spread z cash ez xz t = Inr s"
    and i: "i \<le> t" and ui: "backtest_upto spread z cash ez xz i = Inr si"
  shows "pnl s ! i = capital si"
proof -
  from idx have len: "length spread = length z" by (metis length_map)
  have "\<exists>s. backtest_upto spread z cash ez xz t = Inr s \<and> wf z s \<and>
      (length (pnl s) = Suc t \<and>
       (\<forall>i si. i \<le> t \<and> backtest_upto spread z cash ez xz i = Inr si \<longrightarrow> pnl s ! i = capital si))"
  proof (rule upto_invariant [OF idx t])
    show "length (pnl (init cash)) = Suc 0 \<and>
       (\<forall>i si. i \<le> 0 \<and> backtest_upto spread z cash ez xz i = Inr si
           \<longrightarrow> pnl (init cash) ! i = capital si)"
      by (auto simp: backtest_upto_0 init_def)
  next
    fix n s s'
    assume n: "Suc n < length z" and wf: "wf z s"
      and ih: "length (pnl s) = Suc n \<and>
         (\<forall>i si. i \<le> n \<and> backtest_upto spread z cash ez xz i = Inr si \<longrightarrow> pnl s ! i = capital si)"
      and u': "backtest_upto spread z cash ez xz (Suc n) = Inr s'"
      and b: "backtest_body spread z (cash * 0.1) ez xz (Suc n) s = Inr s'"
    from n len have "Suc n < length spread" by simp
    from body_pnl [OF n this wf b] have p: "pnl s' = pnl s @ [capital s']" .
    have "pnl s' ! i = capital si"
      if "i \<le> Suc n" "backtest_upto spread z cash ez xz i = Inr si" for i si
    proof (cases "i = Suc n")
      case True
      with that(2) u' have "si = s'" by simp
      with True p ih show ?thesis by (simp add: nth_append)
    next
      case False
      with that(1) have "i \<le> n" by simp
      with ih that(2) p show ?thesis by (simp add: nth_append)
    qed
    with p ih show "length (pnl s') = Suc (Suc n) \<and>
         (\<forall>i si. i \<le> Suc n \<and> backtest_upto spread z cash ez xz i = Inr si
             \<longrightarrow> pnl s' ! i = capital si)"
      by simp
  qed
  with u i ui show ?thesis by simp
qed

lemma step_capital:
  assumes idx: "map fst z = map fst spread" and i: "Suc i < length z"
    and u: "backtest_upto spread z cash ez xz i = Inr s"
    and u': "backtest_upto spread z cash ez xz (Suc i) = Inr s'"
  shows "capital s' = capital s \<or> closes_at spread z cash ez xz (Suc i)"
proof -
  from idx have len: "length spread = length z" by (metis length_map)
  from i have "i < length z" by simp
  from upto_total [OF idx this, of cash ez xz] u have wf: "wf z s" by simp
  from u u' have b: "backtest_body spread z (cash * 0.1) ez xz (Suc i) s = Inr s'"
    by (simp add: backtest_upto_Suc)
  from i len have "Suc i < length spread" by simp
  from body_capital [OF i this wf b] u u' show ?thesis
    by (auto simp: closes_at_def)
qed

lemma flat_interval:
  assumes idx: "map fst z = map fst spread" and k: "k < length z"
    and u: "backtest_upto spread z cash ez xz (length z - 1) = Inr s"
    and jk: "j \<le> k"
    and no: "\<forall>i \<in> {j<..k}. \<not> closes_at spread z cash ez xz i"
  shows "pnl s ! k = pnl s ! j"
  using jk k no
proof (induction k)
  case 0
  then show ?case by simp
next
  case (Suc k)
  show ?case
  proof (cases "j = Suc k")
    case True
    then show ?thesis by simp
  next
    case False
    with Suc.prems have j: "j \<le> k" and k: "k < length z" by simp_all
    from Suc.prems(3) have no': "\<forall>i \<in> {j<..k}. \<not> closes_at spread z cash ez xz i" by simp
    from j Suc.prems(3) have nc: "\<not> closes_at spread z cash ez xz (Suc k)" by simp
    from upto_total [OF idx k, of cash ez xz]
    obtain sk where sk: "backtest_upto spread z cash ez xz k = Inr sk" by blast
    from upto_total [OF idx Suc.prems(2), of cash ez xz]
    obtain sk' where sk': "backtest_upto spread z cash ez xz (Suc k) = Inr sk'" by blast
    from step_capital [OF idx Suc.prems(2) sk sk'] nc have c: "capital sk' = capital sk"
      by simp
    from Suc.prems(2) have le: "Suc k \<le> length z - 1" "k \<le> length z - 1"
      and lt: "length z - 1 < length z" by simp_all
    from upto_pnl_nth [OF idx lt u le(1) sk'] upto_pnl_nth [OF idx lt u le(2) sk] c
    have "pnl s ! Suc k = pnl s ! k" by simp
    with Suc.IH [OF j k no'] show ?thesis by simp
  qed
qed

lemma sorted_labels:
  fixes spread :: "('ts::linorder, real) series"
  assumes "sorted_wrt (<) (map fst spread)" and "a < b" and "b < length spread"
  shows "fst (spread ! a) < fst (spread ! b)"
  using sorted_wrt_nth_less [OF assms(1), of a b] assms(2,3) by simp

lemma body_transition:
  assumes "i < length z" and "i < length spread" and "wf z s"
    and "backtest_body spread z sz ez xz i s = Inr s'"
  shows "(position s = 0 \<and> flt (Fin ez) (snd (z ! i)) \<longrightarrow> opened spread i (- 1) s s') \<and>
     (position s = 0 \<and> \<not> flt (Fin ez) (snd (z ! i)) \<and> flt (snd (z ! i)) (Fin (- ez))
        \<longrightarrow> opened spread i 1 s s') \<and>
     (position s = 1 \<and> flt (Fin (- xz)) (snd (z ! i)) \<longrightarrow> closed spread z i ''LONG'' s s') \<and>
     (position s = - 1 \<and> flt (snd (z ! i)) (Fin xz) \<longrightarrow> closed spread z i ''SHORT'' s s') \<and>
     (\<not> (position s = 0 \<and> (flt (Fin ez) (snd (z ! i)) \<or> flt (snd (z ! i)) (Fin (- ez)))) \<and>
      \<not> (position s = 1 \<and> flt (Fin (- xz)) (snd (z ! i))) \<and>
      \<not> (position s = - 1 \<and> flt (snd (z ! i)) (Fin xz)) \<longrightarrow> unchanged s s')"
  using assms
proof (cases rule: body_cases)
  case enter_short
  then show ?thesis by (simp add: opened_def append_pnl_def)
next
  case enter_long
  then show ?thesis by (simp add: opened_def append_pnl_def)
next
  case (close_long e d zd)
  then show ?thesis by (simp add: closed_def append_pnl_def)
next
  case (close_short e d zd)
  then show ?thesis by (simp add: closed_def append_pnl_def)
next
  case hold
  then show ?thesis by (auto simp: unchanged_def append_pnl_def)
qed

subsection \<open>A spread without deviation\<close>




subsection \<open>The scan\<close>

lemma qualifiesI:
  assumes "(a, fa) \<in> set d" and "(b, fb) \<in> set d"
    and "safe_price fa = Inr s_a" and "safe_price fb = Inr s_b"
    and "250 \<le> length (align s_a s_b)"
    and "adf (map (\<lambda>(t, u, v). u) (align s_a s_b)) (map (\<lambda>(t, u, v). v) (align s_a s_b)) = Inr p"
    and "p < sig"
  shows "qualifies adf d sig (a, b, p)"
proof -
  have "\<exists>(kb, fb) \<in> set d. a = a \<and> kb = b \<and>
           (case (safe_price fa, safe_price fb) of
              (Inr s_a, Inr s_b) \<Rightarrow>
                250 \<le> length (align s_a s_b) \<and>
                adf (map (\<lambda>(t, u, v). u) (align s_a s_b))
                    (map (\<lambda>(t, u, v). v) (align s_a s_b)) = Inr p
            | _ \<Rightarrow> False)"
    by (rule bexI [OF _ assms(2)]) (simp add: assms(3-6))
  then have "\<exists>(ka, fa) \<in> set d. \<exists>(kb, fb) \<in> set d. ka = a \<and> kb = b \<and>
           (case (safe_price fa, safe_price fb) of
              (Inr s_a, Inr s_b) \<Rightarrow>
                250 \<le> length (align s_a s_b) \<and>
                adf (map (\<lambda>(t, u, v). u) (align s_a s_b))
                    (map (\<lambda>(t, u, v). v) (align s_a s_b)) = Inr p
            | _ \<Rightarrow> False)"
    by (intro bexI [OF _ assms(1)]) simp
  with assms(7) show ?thesis by (simp add: qualifies_def)
qed

lemma scan_j_skip:
  assumes "safe_price (snd a) = Inr s_a" and "safe_price (snd b) = Inr s_b"
    and "length (align s_a s_b) < 250"
  shows "scan_j adf sig mp a (b # bs) c = scan_j adf sig mp a bs c"
  using assms by simp

lemma scan_j_Cons_cases:
  assumes "scan_j adf sig mp a (b # bs) c = Inr c'"
  obtains (skip) s_a s_b where "safe_price (snd a) = Inr s_a" "safe_price (snd b) = Inr s_b"
      "length (align s_a s_b) < 250" "scan_j adf sig mp a bs c = Inr c'"
  | (test) s_a s_b p where "safe_price (snd a) = Inr s_a" "safe_price (snd b) = Inr s_b"
      "250 \<le> length (align s_a s_b)"
      "adf (map (\<lambda>(t, u, v). u) (align s_a s_b)) (map (\<lambda>(t, u, v). v) (align s_a s_b)) = Inr p"
      "(mp \<le> int (length (if p < sig then c @ [(fst a, fst b, p)] else c)) \<and>
          c' = (if p < sig then c @ [(fst a, fst b, p)] else c)) \<or>
       (\<not> mp \<le> int (length (if p < sig then c @ [(fst a, fst b, p)] else c)) \<and>
          scan_j adf sig mp a bs (if p < sig then c @ [(fst a, fst b, p)] else c) = Inr c')"
proof -
  from assms obtain s_a where sa: "safe_price (snd a) = Inr s_a"
    by (cases "safe_price (snd a)") simp_all
  with assms obtain s_b where sb: "safe_price (snd b) = Inr s_b"
    by (cases "safe_price (snd b)") simp_all
  show thesis
  proof (cases "length (align s_a s_b) < 250")
    case True
    with assms sa sb have "scan_j adf sig mp a bs c = Inr c'" by simp
    with sa sb True show thesis by (rule skip)
  next
    case False
    let ?x = "map (\<lambda>(t, u, v). u) (align s_a s_b)" and ?y = "map (\<lambda>(t, u, v). v) (align s_a s_b)"
    from assms sa sb False obtain p where p: "adf ?x ?y = Inr p"
      by (cases "adf ?x ?y") (simp_all add: Let_def)
    from False have ge: "250 \<le> length (align s_a s_b)" by simp
    let ?c = "if p < sig then c @ [(fst a, fst b, p)] else c"
    from assms sa sb False p
    have "(mp \<le> int (length ?c) \<and> c' = ?c) \<or>
       (\<not> mp \<le> int (length ?c) \<and> scan_j adf sig mp a bs ?c = Inr c')"
      by (cases "mp \<le> int (length ?c)") (simp_all add: Let_def)
    with sa sb ge p show thesis by (rule test)
  qed
qed

lemma scan_j_inv:
  assumes "scan_j adf sig mp a bs c = Inr c'"
    and "a \<in> set d" and "set bs \<subseteq> set d"
    and "\<forall>x \<in> set c. qualifies adf d sig x" and "int (length c) < mp"
  shows "(\<forall>x \<in> set c'. qualifies adf d sig x) \<and> int (length c') \<le> mp"
  using assms
proof (induction bs arbitrary: c)
  case Nil
  then show ?case by simp
next
  case (Cons b bs)
  from Cons.prems(3) have bd: "b \<in> set d" and bsd: "set bs \<subseteq> set d" by simp_all
  from Cons.prems(1) show ?case
  proof (cases rule: scan_j_Cons_cases)
    case (skip s_a s_b)
    from Cons.IH [OF skip(4) Cons.prems(2) bsd Cons.prems(4,5)] show ?thesis .
  next
    case (test s_a s_b p)
    let ?c = "if p < sig then c @ [(fst a, fst b, p)] else c"
    have "qualifies adf d sig (fst a, fst b, p)" if "p < sig"
    proof -
      have "(fst a, snd a) \<in> set d" "(fst b, snd b) \<in> set d"
        using Cons.prems(2) bd by simp_all
      then show ?thesis
        using test(1-4) that by (rule qualifiesI [where adf = adf])
    qed
    with Cons.prems(4) have q: "\<forall>x \<in> set ?c. qualifies adf d sig x" by simp
    from Cons.prems(5) have l: "int (length ?c) \<le> mp" by simp
    from test(5) show ?thesis
    proof
      assume "mp \<le> int (length ?c) \<and> c' = ?c"
      with q l show ?thesis by simp
    next
      assume *: "\<not> mp \<le> int (length ?c) \<and> scan_j adf sig mp a bs ?c = Inr c'"
      then have "int (length ?c) < mp" by simp
      from Cons.IH [OF _ Cons.prems(2) bsd q this] * show ?thesis by blast
    qed
  qed
qed

lemma scan_i_inv:
  assumes "scan_i adf sig mp ds c = Inr c'"
    and "set ds \<subseteq> set d"
    and "\<forall>x \<in> set c. qualifies adf d sig x" and "int (length c) < mp"
  shows "(\<forall>x \<in> set c'. qualifies adf d sig x) \<and> int (length c') \<le> mp"
  using assms
proof (induction ds arbitrary: c)
  case Nil
  then show ?case by simp
next
  case (Cons a rest)
  from Cons.prems(2) have ad: "a \<in> set d" and rd: "set rest \<subseteq> set d" by simp_all
  from Cons.prems(1) obtain c1 where j: "scan_j adf sig mp a rest c = Inr c1"
    by (cases "scan_j adf sig mp a rest c") simp_all
  from scan_j_inv [OF j ad rd Cons.prems(3,4)]
  have q: "\<forall>x \<in> set c1. qualifies adf d sig x" and l: "int (length c1) \<le> mp" by simp_all
  show ?case
  proof (cases "mp \<le> int (length c1)")
    case True
    with Cons.prems(1) j have "c' = c1" by simp
    with q l show ?thesis by simp
  next
    case False
    with Cons.prems(1) j have "scan_i adf sig mp rest c1 = Inr c'" by simp
    from Cons.IH [OF this rd q] False show ?thesis by simp
  qed
qed

lemma safe_price_error: "safe_price df = Inl e \<Longrightarrow> e = KeyError"
  by (auto simp: safe_price_def Let_def split: option.splits)

lemma dropna_const: "dropna (map (\<lambda>i. (i, Some v)) is) = map (\<lambda>i. (i, v)) is"
  by (induction "is") (simp_all add: dropna_def)

lemma safe_price_const_frame:
  "safe_price (const_frame ''Adj Close'' n v) = Inr (map (\<lambda>i. (i, v)) [0..<n])"
  "safe_price (const_frame ''Close'' n v) = Inr (map (\<lambda>i. (i, v)) [0..<n])"
  "safe_price (const_frame '' close'' n v) = Inr (map (\<lambda>i. (i, v)) [0..<n])"
  "safe_price (const_frame ''Open'' n v) = Inl KeyError"
  "safe_price (const_frame ''High'' n v) = Inl KeyError"
  "safe_price (const_frame ''Volume'' n v) = Inl KeyError"
  by (simp_all add: safe_price_def const_frame_def strip_def lower_char_def is_space_def
      dropna_const)

lemma concat_map_if:
  "concat (map (\<lambda>x. if P x then [f x] else []) xs) = map f (filter P xs)"
  by (induction xs) simp_all

lemma filter_less_upt: "filter (\<lambda>t. t < m) [0..<n] = [0..<min n m]"
proof (induction n)
  case 0
  show ?case by simp
next
  case (Suc n)
  show ?case
  proof (cases "n < m")
    case True
    then have "min n m = n" "min (Suc n) m = Suc n" by simp_all
    with Suc True show ?thesis by simp
  next
    case False
    then have "min n m = m" "min (Suc n) m = m" by simp_all
    with Suc False show ?thesis by simp
  qed
qed

lemma align_const:
  "align (map (\<lambda>i. (i, a)) [0..<n]) (map (\<lambda>i. (i, b)) [0..<m]) = map (\<lambda>i. (i, a, b)) [0..<min n m]"
proof -
  let ?f = "\<lambda>(t, a). case map_of (map (\<lambda>i. (i, b)) [0..<m]) t of
                        None \<Rightarrow> [] | Some b \<Rightarrow> [(t, a, b)]"
  have m: "map_of (map (\<lambda>i. (i, b)) [0..<m]) t = (if t < m then Some b else None)" for t
    by (simp add: map_of_map_restrict restrict_map_def)
  have "map (?f \<circ> (\<lambda>i. (i, a))) [0..<n] = map (\<lambda>i. if i < m then [(i, a, b)] else []) [0..<n]"
    by (rule map_cong [OF refl]) (simp add: m)
  then have "concat (map ?f (map (\<lambda>i. (i, a)) [0..<n]))
      = concat (map (\<lambda>i. if i < m then [(i, a, b)] else []) [0..<n])"
    by (simp only: map_map)
  also have "\<dots> = map (\<lambda>i. (i, a, b)) (filter (\<lambda>t. t < m) [0..<n])" by (rule concat_map_if)
  also have "\<dots> = map (\<lambda>i. (i, a, b)) [0..<min n m]" by (simp only: filter_less_upt)
  finally show ?thesis by (simp only: align_def)
qed

lemma ex_adf_const:
  "0 < n \<Longrightarrow> ex_adf (map ((\<lambda>(t, u, v). u) \<circ> (\<lambda>i. (i, a, b))) [0..<n])
                   (map ((\<lambda>(t, u, v). v) \<circ> (\<lambda>i. (i, a, b))) [0..<n]) = Inr (1 / (a + b))"
  by (cases n) (simp_all add: ex_adf_def upt_rec [of 0])

lemmas ex_scan_simps =
  safe_price_const_frame align_const ex_adf_const

lemma ex_universe_scan:
  "find_cointegrated_pairs ex_adf ex_universe 0.05 10 =
     Inr [(''B'', ''C'', 1 / 60), (''A'', ''C'', 1 / 50), (''A'', ''B'', 1 / 30)]"
  by (simp add: find_cointegrated_pairs_def ex_universe_def ex_scan_simps)

lemma max_pairs_zero_returns_one:
  "find_cointegrated_pairs ex_adf ex_universe 0.05 0 = Inr [(''A'', ''B'', 1 / 30)]"
  by (simp add: find_cointegrated_pairs_def ex_universe_def ex_scan_simps)

lemma scan_j_first_missing:
  assumes "safe_price (snd a) = Inl e"
  shows "scan_j adf sig mp a (b # bs) c = Inl KeyError"
  using assms safe_price_error [OF assms] by simp

lemma scan_j_missing:
  assumes "\<exists>b \<in> set bs. safe_price (snd b) = Inl KeyError"
  shows "cut_short adf mp (scan_j adf sig mp a bs c)"
  using assms
proof (induction bs arbitrary: c)
  case Nil
  then show ?case by simp
next
  case (Cons b bs)
  show ?case
  proof (cases "safe_price (snd a)")
    case (Inl e)
    from scan_j_first_missing [OF this] show ?thesis by (simp add: cut_short_def)
  next
    case sa: (Inr s_a)
    show ?thesis
    proof (cases "safe_price (snd b)")
      case (Inl e)
      with sa safe_price_error [OF Inl] show ?thesis by (simp add: cut_short_def)
    next
      case sb: (Inr s_b)
      with Cons.prems have rest: "\<exists>b \<in> set bs. safe_price (snd b) = Inl KeyError" by auto
      note IH = Cons.IH [OF rest]
      let ?x = "map (\<lambda>(t, u, v). u) (align s_a s_b)"
      let ?y = "map (\<lambda>(t, u, v). v) (align s_a s_b)"
      show ?thesis
      proof (cases "length (align s_a s_b) < 250")
        case True
        with sa sb IH [of c] show ?thesis by simp
      next
        case False
        show ?thesis
        proof (cases "adf ?x ?y")
          case (Inl e)
          then have "\<exists>xs ys. adf xs ys = Inl e" by blast
          with sa sb False Inl show ?thesis by (simp add: cut_short_def)
        next
          case (Inr p)
          let ?c = "if p < sig then c @ [(fst a, fst b, p)] else c"
          show ?thesis
          proof (cases "mp \<le> int (length ?c)")
            case True
            with sa sb False Inr show ?thesis by (simp add: cut_short_def Let_def)
          next
            case no: False
            with sa sb False Inr IH [of ?c] show ?thesis by (simp add: Let_def)
          qed
        qed
      qed
    qed
  qed
qed

lemma scan_i_missing:
  assumes "rest \<noteq> []" and "\<exists>b \<in> set (a # rest). safe_price (snd b) = Inl KeyError"
  shows "cut_short adf mp (scan_i adf sig mp (a # rest) c)"
proof (cases "safe_price (snd a) = Inl KeyError")
  case True
  from assms(1) obtain b bs where "rest = b # bs" by (cases rest) simp_all
  with scan_j_first_missing [OF True] have "scan_j adf sig mp a rest c = Inl KeyError" by simp
  then show ?thesis by (simp add: cut_short_def)
next
  case False
  with assms(2) have "\<exists>b \<in> set rest. safe_price (snd b) = Inl KeyError" by simp
  from scan_j_missing [OF this, of adf mp sig a c] show ?thesis
    by (cases "scan_j adf sig mp a rest c") (simp_all add: cut_short_def)
qed

section \<open>Claims\<close>

subsection \<open>The transitions of the backtest\<close>

text \<open>
  Claim C1, as amended. At every step \<open>t \<ge> 1\<close> of a run the loop moves from the state after
  step \<open>t - 1\<close> to the state after step \<open>t\<close> by exactly one of these rules, and appends
  the capital to the trajectory: FLAT goes to SHORT when \<open>z\<^sub>t > entry_z\<close>, recording the
  spread value and the timestamp of the step; FLAT goes to LONG when \<open>z\<^sub>t < - entry_z\<close> and
  the SHORT test, which the code makes first, has failed; LONG goes to FLAT when
  \<open>z\<^sub>t > - exit_z\<close> and SHORT goes to FLAT when \<open>z\<^sub>t < exit_z\<close>, each appending one trade,
  adding its profit to the capital and clearing the entry; in every other case position,
  entry, capital and ledger stay as they are.
\<close>

theorem backtest_transitions:
  assumes run: "backtest_pair x y cash entry_z exit_z = Inr (P, spread, z, beta, trs)"
    and t: "1 \<le> t" "t < length z"
  shows "\<exists>s s'. backtest_upto spread z cash entry_z exit_z (t - 1) = Inr s \<and>
           backtest_upto spread z cash entry_z exit_z t = Inr s' \<and>
           (position s = 0 \<or> position s = 1 \<or> position s = - 1) \<and>
           pnl s' = pnl s @ [capital s'] \<and>
           (position s = 0 \<and> flt (Fin entry_z) (snd (z ! t)) \<longrightarrow> opened spread t (- 1) s s') \<and>
           (position s = 0 \<and> \<not> flt (Fin entry_z) (snd (z ! t)) \<and>
              flt (snd (z ! t)) (Fin (- entry_z)) \<longrightarrow> opened spread t 1 s s') \<and>
           (position s = 1 \<and> flt (Fin (- exit_z)) (snd (z ! t))
              \<longrightarrow> closed spread z t ''LONG'' s s') \<and>
           (position s = - 1 \<and> flt (snd (z ! t)) (Fin exit_z)
              \<longrightarrow> closed spread z t ''SHORT'' s s') \<and>
           (\<not> (position s = 0 \<and>
                (flt (Fin entry_z) (snd (z ! t)) \<or> flt (snd (z ! t)) (Fin (- entry_z)))) \<and>
            \<not> (position s = 1 \<and> flt (Fin (- exit_z)) (snd (z ! t))) \<and>
            \<not> (position s = - 1 \<and> flt (snd (z ! t)) (Fin exit_z)) \<longrightarrow> unchanged s s')"
proof -
  from run have idx: "map fst z = map fst spread"
    by (rule backtest_pairE)
  from idx have len: "length spread = length z" by (metis length_map)
  from t(1) obtain n where n: "t = Suc n" by (cases t) simp_all
  with t(2) have nl: "n < length z" "Suc n < length z" by simp_all
  from upto_total [OF idx nl(1), of cash entry_z exit_z]
  obtain s where s: "backtest_upto spread z cash entry_z exit_z n = Inr s" "wf z s" by blast
  from upto_total [OF idx nl(2), of cash entry_z exit_z]
  obtain s' where s': "backtest_upto spread z cash entry_z exit_z (Suc n) = Inr s'" by blast
  from s(1) s' have b: "backtest_body spread z (cash * 0.1) entry_z exit_z (Suc n) s = Inr s'"
    by (simp add: backtest_upto_Suc)
  from nl(2) len have ns: "Suc n < length spread" by simp
  from s(2) have p: "position s = 0 \<or> position s = 1 \<or> position s = - 1"
    by (simp add: wf_def)
  note tr = body_transition [OF nl(2) ns s(2) b] and pn = body_pnl [OF nl(2) ns s(2) b]
  show ?thesis
    unfolding n
    by (intro exI [of _ s] exI [of _ s'] conjI) (use s(1) s' p pn tr in simp_all)
qed

theorem backtest_transitions_witness:
  "backtest_pair ex_x ex_y 100000 1 0.2 = Inr (ex_pnl, ex_spread, ex_z, 2, ex_trades) \<and>
   (1::nat) \<le> 3 \<and> 3 < length ex_z \<and>
   backtest_upto ex_spread ex_z 100000 1 0.2 2 = Inr ex_upto_2 \<and>
   position ex_upto_2 = 1 \<and> flt (Fin (- 0.2)) (snd (ex_z ! 3)) \<and>
   (\<exists>s'. backtest_upto ex_spread ex_z 100000 1 0.2 3 = Inr s' \<and>
         closed ex_spread ex_z 3 ''LONG'' ex_upto_2 s')"
proof -
  have l: "3 < length ex_z" by (simp add: ex_z_def)
  have p: "position ex_upto_2 = 1" by (simp add: ex_upto_2_def)
  have f: "flt (Fin (- 0.2)) (snd (ex_z ! 3))" by (simp add: ex_z_def)
  from backtest_transitions [OF ex_run _ l] ex_upto_2_run p f
  have "\<exists>s'. backtest_upto ex_spread ex_z 100000 1 0.2 3 = Inr s' \<and>
         closed ex_spread ex_z 3 ''LONG'' ex_upto_2 s'"
    by auto
  with ex_run l ex_upto_2_run p f show ?thesis by simp
qed

text \<open>
  Claim C1 as stated fails for a negative entry threshold: with \<open>entry_z = - 2\<close> the first
  step of the example has \<open>z\<^sub>1 = - 7/5 < - entry_z\<close>, the stated condition for entering
  LONG, yet the code enters SHORT, because \<open>z\<^sub>1 > entry_z\<close> is tested first.
\<close>

theorem long_entry_counterexample:
  "compute_spread ex_x ex_y = Inr (ex_spread, 2) \<and> zscore ex_spread = ex_z \<and>
   backtest_upto ex_spread ex_z 100000 (- 2) 0.2 0 = Inr (init 100000) \<and>
   position (init 100000 :: nat state) = 0 \<and>
   flt (snd (ex_z ! 1)) (Fin (- (- 2))) \<and>
   backtest_upto ex_spread ex_z 100000 (- 2) 0.2 1 = Inr ex_short_1 \<and>
   position ex_short_1 \<noteq> 1"
proof -
  have "[1..<Suc 1] = [1]" by (simp add: upt_rec)
  then have "backtest_upto ex_spread ex_z 100000 (- 2) 0.2 1 = Inr ex_short_1"
    unfolding backtest_upto_def
    by (simp add: backtest_body_def append_pnl_def init_def ex_short_1_def ex_spread_def ex_z_def)
  then show ?thesis
    by (simp add: ex_compute_spread ex_zscore backtest_upto_0)
      (simp add: init_def ex_z_def ex_short_1_def)
qed

subsection \<open>The profit of a trade\<close>

text \<open>
  Claim C2. Every trade in the ledger returned by \<^verbatim>\<open>backtest_pair\<close> has an entry step and
  a later exit step, its entry and exit spread are the values of the spread at these
  steps, it is labelled LONG or SHORT, and its profit is the spread move times
  \<open>size / std(spread)\<close>: exit minus entry for LONG, entry minus exit for SHORT, where
  \<open>size = cash * 0.1\<close> whatever the z-score is and the standard deviation is that of the
  whole spread series.
\<close>

theorem trade_profit_formula:
  assumes "backtest_pair x y cash entry_z exit_z = Inr (P, spread, z, beta, trs)"
    and "tr \<in> set trs"
  shows "\<exists>e c. e < c \<and> c < length spread \<and>
           t_entry_spread tr = snd (spread ! e) \<and> t_exit_spread tr = snd (spread ! c) \<and>
           ((t_position tr = ''LONG'' \<and>
             t_profit tr = fmul (Fin (snd (spread ! c) - snd (spread ! e)))
                             (fdiv (Fin (cash * 0.1)) (std (map snd spread)))) \<or>
            (t_position tr = ''SHORT'' \<and>
             t_profit tr = fmul (Fin (snd (spread ! e) - snd (spread ! c)))
                             (fdiv (Fin (cash * 0.1)) (std (map snd spread)))))"
proof -
  from assms(1) obtain s where idx: "map fst z = map fst spread" and pos: "0 < length z"
    and u: "backtest_upto spread z cash entry_z exit_z (length z - 1) = Inr s"
    and out: "P = pnl s" "trs = trades s"
    by (rule backtest_pairE)
  from idx have len: "length spread = length z" by (metis length_map)
  from pos have lt: "length z - 1 < length z" by simp
  from upto_profit_rule [OF idx lt u] assms(2) out
  have rule: "profit_rule (cash * 0.1) (std (map snd spread)) tr" by simp
  from upto_ledger_inv [OF idx lt, of cash entry_z exit_z] u
  have inv: "ledger_inv spread z (length z - 1) s" by simp
  with assms(2) out obtain e c where "trade_steps spread z (pnl s) tr e c"
    unfolding ledger_inv_def by blast
  moreover from inv pos len have "length (pnl s) = length spread"
    by (simp add: ledger_inv_def)
  ultimately have ec: "e < c" "c < length spread" "t_entry_spread tr = snd (spread ! e)"
    "t_exit_spread tr = snd (spread ! c)"
    unfolding trade_steps_def by simp_all
  from rule ec(3,4)
  have "(t_position tr = ''LONG'' \<and>
             t_profit tr = fmul (Fin (snd (spread ! c) - snd (spread ! e)))
                             (fdiv (Fin (cash * 0.1)) (std (map snd spread)))) \<or>
            (t_position tr = ''SHORT'' \<and>
             t_profit tr = fmul (Fin (snd (spread ! e) - snd (spread ! c)))
                             (fdiv (Fin (cash * 0.1)) (std (map snd spread))))"
    by (simp add: profit_rule_def split: if_splits)
  with ec show ?thesis by blast
qed

theorem trade_profit_formula_witness:
  "backtest_pair ex_x ex_y 100000 1 0.2 = Inr (ex_pnl, ex_spread, ex_z, 2, ex_trades) \<and>
   ex_trades ! 0 \<in> set ex_trades \<and>
   (\<exists>e c. e < c \<and> c < length ex_spread \<and>
      t_entry_spread (ex_trades ! 0) = snd (ex_spread ! e) \<and>
      t_exit_spread (ex_trades ! 0) = snd (ex_spread ! c) \<and>
      t_position (ex_trades ! 0) = ''LONG'' \<and>
      t_profit (ex_trades ! 0) =
        fmul (Fin (snd (ex_spread ! c) - snd (ex_spread ! e))) (fdiv (Fin (100000 * 0.1)) (Fin 5))) \<and>
   t_profit (ex_trades ! 0) = Fin 18000"
proof -
  have a: "ex_trades ! 0 \<in> set ex_trades" by (simp add: ex_trades_def)
  have b: "t_position (ex_trades ! 0) \<noteq> ''SHORT''" "t_profit (ex_trades ! 0) = Fin 18000"
    by (simp_all add: ex_trades_def)
  from trade_profit_formula [OF ex_run a] b(1)
  have "\<exists>e c. e < c \<and> c < length ex_spread \<and>
      t_entry_spread (ex_trades ! 0) = snd (ex_spread ! e) \<and>
      t_exit_spread (ex_trades ! 0) = snd (ex_spread ! c) \<and>
      t_position (ex_trades ! 0) = ''LONG'' \<and>
      t_profit (ex_trades ! 0) =
        fmul (Fin (snd (ex_spread ! c) - snd (ex_spread ! e))) (fdiv (Fin (100000 * 0.1)) (Fin 5))"
    unfolding ex_std by blast
  with ex_run a b(2) show ?thesis by blast
qed

subsection \<open>A spread with zero standard deviation\<close>




subsection \<open>The result of the scan\<close>

text \<open>
  Claim C4, as amended. Whenever \<^verbatim>\<open>find_cointegrated_pairs\<close> returns a list and
  \<open>max_pairs\<close> is at least 1, the list is sorted by p-value, non-decreasing, has at most
  \<open>max_pairs\<close> elements, and each element is a pair of instruments of the universe whose
  price series align on at least 250 observations and whose p-value, as the stationarity
  test returned it for the aligned sample, is below the significance level. A pair of
  instruments with a shorter aligned sample is passed over: the inner loop goes on with
  the instruments that follow, the candidates unchanged.
\<close>

theorem scan_result:
  assumes "find_cointegrated_pairs adf data_dict significance max_pairs = Inr candidates"
    and "1 \<le> max_pairs"
  shows "sorted (map (\<lambda>(a, b, p). p) candidates) \<and>
         int (length candidates) \<le> max_pairs \<and>
         (\<forall>c \<in> set candidates. qualifies adf data_dict significance c) \<and>
         (\<forall>a \<in> set data_dict. \<forall>b \<in> set data_dict. \<forall>bs c.
            (case (safe_price (snd a), safe_price (snd b)) of
               (Inr s_a, Inr s_b) \<Rightarrow> length (align s_a s_b) < 250
             | _ \<Rightarrow> False)
            \<longrightarrow> scan_j adf significance max_pairs a (b # bs) c =
                scan_j adf significance max_pairs a bs c)"
proof -
  from assms(1) obtain c where i: "scan_i adf significance max_pairs data_dict [] = Inr c"
    and s: "candidates = sort_key (\<lambda>(a, b, p). p) c"
    by (auto simp: find_cointegrated_pairs_def split: sum.splits)
  from assms(2) have "int (length ([] :: ('a \<times> 'a \<times> real) list)) < max_pairs" by simp
  from scan_i_inv [OF i subset_refl _ this]
  have "\<forall>x \<in> set c. qualifies adf data_dict significance x" "int (length c) \<le> max_pairs"
    by simp_all
  with s have 1: "sorted (map (\<lambda>(a, b, p). p) candidates) \<and>
         int (length candidates) \<le> max_pairs \<and>
         (\<forall>c \<in> set candidates. qualifies adf data_dict significance c)"
    by simp
  have 2: "scan_j adf significance max_pairs a (b # bs) c =
                scan_j adf significance max_pairs a bs c"
    if "case (safe_price (snd a), safe_price (snd b)) of
               (Inr s_a, Inr s_b) \<Rightarrow> length (align s_a s_b) < 250
             | _ \<Rightarrow> False"
    for a b :: "'a \<times> 'b dataframe" and bs c
    using that by (auto split: sum.splits intro: scan_j_skip)
  from 1 2 show ?thesis by blast
qed

theorem scan_result_witness:
  "find_cointegrated_pairs ex_adf ex_universe 0.05 10 =
     Inr [(''B'', ''C'', 1 / 60), (''A'', ''C'', 1 / 50), (''A'', ''B'', 1 / 30)] \<and>
   (1::int) \<le> 10 \<and>
   sorted (map (\<lambda>(a, b, p). p) [(''B'', ''C'', 1 / 60 :: real), (''A'', ''C'', 1 / 50),
                                  (''A'', ''B'', 1 / 30)]) \<and>
   (''A'', ''B'', 1 / 30) \<in> set [(''B'', ''C'', 1 / 60 :: real), (''A'', ''C'', 1 / 50),
                                  (''A'', ''B'', 1 / 30)] \<and>
   qualifies ex_adf ex_universe 0.05 (''A'', ''B'', 1 / 30) \<and>
   ex_universe ! 0 \<in> set ex_universe \<and> ex_universe ! 2 \<in> set ex_universe \<and>
   length (align (map (\<lambda>i. (i, 10)) [0..<250]) (map (\<lambda>i. (i, 80)) [0..<3])) < 250 \<and>
   scan_j ex_adf 0.05 10 (ex_universe ! 0) [ex_universe ! 2] [] = Inr []"
proof -
  have one: "(1::int) \<le> 10" by simp
  note T = scan_result [OF ex_universe_scan one]
  have m: "ex_universe ! 0 \<in> set ex_universe" "ex_universe ! 2 \<in> set ex_universe"
    by (simp_all add: ex_universe_def)
  have short: "length (align (map (\<lambda>i. (i, 10)) [0..<250]) (map (\<lambda>i. (i, 80)) [0..<3])) < 250"
    by (simp add: align_const)
  then have "case (safe_price (snd (ex_universe ! 0)), safe_price (snd (ex_universe ! 2))) of
               (Inr s_a, Inr s_b) \<Rightarrow> length (align s_a s_b) < 250
             | _ \<Rightarrow> False"
    by (simp add: ex_universe_def safe_price_const_frame)
  with T m have "scan_j ex_adf 0.05 10 (ex_universe ! 0) [ex_universe ! 2] [] =
      scan_j ex_adf 0.05 10 (ex_universe ! 0) [] []"
    by blast
  then have skip: "scan_j ex_adf 0.05 10 (ex_universe ! 0) [ex_universe ! 2] [] = Inr []"
    by simp
  from T have q: "qualifies ex_adf ex_universe 0.05 (''A'', ''B'', 1 / 30)" by simp
  from T have srt: "sorted (map (\<lambda>(a, b, p). p) [(''B'', ''C'', 1 / 60 :: real),
      (''A'', ''C'', 1 / 50), (''A'', ''B'', 1 / 30)])" by blast
  from ex_universe_scan one srt q m short skip show ?thesis by simp
qed

text \<open>
  Claim C4 as stated fails: on a universe whose second instrument has neither price
  column the scan returns no list, it raises KeyError at the first pair.
\<close>

theorem scan_raises_counterexample:
  "find_cointegrated_pairs ex_adf ex_missing_second 0.05 10 = Inl KeyError"
  by (simp add: find_cointegrated_pairs_def ex_missing_second_def ex_scan_simps)

subsection \<open>An instrument without a price column\<close>

text \<open>
  Claim C5, as amended. In a universe of at least two instruments, an instrument with
  neither an adjusted-close nor a close column is not excluded: the scan never completes
  over the other instruments. It ends with the KeyError of \<^verbatim>\<open>safe_price\<close>, at the very
  first pair when the instrument is one of the first two, unless it has ended before with
  an error of the stationarity test or by the early exit at \<open>max_pairs\<close> candidates.
\<close>

theorem missing_price_aborts:
  assumes "2 \<le> length data_dict"
    and "\<exists>(k, df) \<in> set data_dict. safe_price df = Inl KeyError"
  shows "(find_cointegrated_pairs adf data_dict significance max_pairs = Inl KeyError \<or>
          (\<exists>e xs ys. find_cointegrated_pairs adf data_dict significance max_pairs = Inl e \<and>
                      adf xs ys = Inl e) \<or>
          (\<exists>c. find_cointegrated_pairs adf data_dict significance max_pairs = Inr c \<and>
               max_pairs \<le> int (length c))) \<and>
         (safe_price (snd (data_dict ! 0)) = Inl KeyError \<or>
          safe_price (snd (data_dict ! 1)) = Inl KeyError
            \<longrightarrow> find_cointegrated_pairs adf data_dict significance max_pairs = Inl KeyError)"
proof -
  from assms(1) obtain a b rest where d: "data_dict = a # b # rest"
    by (cases data_dict; cases "tl data_dict") simp_all
  from assms(2) have "\<exists>b \<in> set data_dict. safe_price (snd b) = Inl KeyError" by force
  with d have "cut_short adf max_pairs (scan_i adf significance max_pairs data_dict [])"
    using scan_i_missing [of "b # rest" a adf max_pairs significance "[]"] by simp
  then have 1: "find_cointegrated_pairs adf data_dict significance max_pairs = Inl KeyError \<or>
          (\<exists>e xs ys. find_cointegrated_pairs adf data_dict significance max_pairs = Inl e \<and>
                      adf xs ys = Inl e) \<or>
          (\<exists>c. find_cointegrated_pairs adf data_dict significance max_pairs = Inr c \<and>
               max_pairs \<le> int (length c))"
    by (cases "scan_i adf significance max_pairs data_dict []")
      (auto simp: cut_short_def find_cointegrated_pairs_def)
  have 2: "find_cointegrated_pairs adf data_dict significance max_pairs = Inl KeyError"
    if "safe_price (snd (data_dict ! 0)) = Inl KeyError \<or>
        safe_price (snd (data_dict ! 1)) = Inl KeyError"
  proof -
    have "scan_j adf significance max_pairs a (b # rest) [] = Inl KeyError"
    proof (cases "safe_price (snd a)")
      case (Inl e)
      from scan_j_first_missing [OF this] show ?thesis .
    next
      case (Inr s_a)
      with that d have "safe_price (snd b) = Inl KeyError" by simp
      with Inr show ?thesis by simp
    qed
    with d show ?thesis by (simp add: find_cointegrated_pairs_def)
  qed
  from 1 2 show ?thesis by blast
qed

theorem missing_price_aborts_witness:
  "2 \<le> length ex_missing_middle \<and>
   (\<exists>(k, df) \<in> set ex_missing_middle. safe_price df = Inl KeyError) \<and>
   safe_price (snd (ex_missing_middle ! 1)) = Inl KeyError \<and>
   find_cointegrated_pairs adf_invalid ex_missing_middle 0.05 10 = Inl KeyError"
proof -
  have a: "2 \<le> length ex_missing_middle" by (simp add: ex_missing_middle_def)
  have c: "safe_price (snd (ex_missing_middle ! 1)) = Inl KeyError"
    by (simp add: ex_missing_middle_def safe_price_const_frame)
  have b: "\<exists>(k, df) \<in> set ex_missing_middle. safe_price df = Inl KeyError"
    by (simp add: ex_missing_middle_def safe_price_const_frame)
  from missing_price_aborts [OF a b, of adf_invalid "0.05" 10] c
  have "find_cointegrated_pairs adf_invalid ex_missing_middle 0.05 10 = Inl KeyError" by blast
  with a b c show ?thesis by blast
qed

text \<open>
  Claim C5 as stated fails: in the universe of A, B and C, where A has only an opening
  price, A is not excluded and the pair of B and C is never scanned. The scan ends with
  the KeyError of \<^verbatim>\<open>safe_price\<close> at its first pair, before the stationarity test is called:
  a test that raises ValueError on every sample leaves the KeyError as the result.
\<close>

theorem missing_price_counterexample:
  "find_cointegrated_pairs adf_invalid ex_missing_first 0.05 10 = Inl KeyError"
  by (simp add: find_cointegrated_pairs_def ex_missing_first_def safe_price_const_frame)

subsection \<open>The capital trajectory\<close>

text \<open>
  Claim C6. The capital trajectory of a run has one value per observation of the z-score
  series and starts with the initial capital; its value at a step differs from the value
  before only if a trade is appended at that step; it is constant over every stretch of
  steps without a close; and every trade of the ledger has an entry step \<open>e\<close> and a later
  exit step \<open>x\<close> such that the trajectory is constant from \<open>e - 1\<close> to \<open>x - 1\<close> and
  changes at \<open>x\<close> by the profit of the trade.
\<close>

theorem capital_trajectory:
  assumes run: "backtest_pair x y cash entry_z exit_z = Inr (P, spread, z, beta, trs)"
  shows "length P = length z \<and> P ! 0 = Fin cash \<and>
     (\<forall>i. 1 \<le> i \<and> i < length z \<and> P ! i \<noteq> P ! (i - 1)
          \<longrightarrow> closes_at spread z cash entry_z exit_z i) \<and>
     (\<forall>j k. j \<le> k \<and> k < length z \<and>
            (\<forall>i \<in> {j<..k}. \<not> closes_at spread z cash entry_z exit_z i)
          \<longrightarrow> P ! k = P ! j) \<and>
     (\<forall>tr \<in> set trs. \<exists>e x. trade_steps spread z P tr e x)"
proof -
  from run obtain s where idx: "map fst z = map fst spread" and pos: "0 < length z"
    and u: "backtest_upto spread z cash entry_z exit_z (length z - 1) = Inr s"
    and out: "P = pnl s" "trs = trades s"
    by (rule backtest_pairE)
  from pos have lt: "length z - 1 < length z" by simp
  from upto_ledger_inv [OF idx lt, of cash entry_z exit_z] u
  have inv: "ledger_inv spread z (length z - 1) s" by simp
  then have "length (pnl s) = Suc (length z - 1)" by (simp add: ledger_inv_def)
  with pos out have 1: "length P = length z" by simp
  from upto_pnl_nth [OF idx lt u, of 0 "init cash"] out have 2: "P ! 0 = Fin cash"
    by (simp add: backtest_upto_0 init_def)
  have 3: "closes_at spread z cash entry_z exit_z i"
    if "1 \<le> i" "i < length z" "P ! i \<noteq> P ! (i - 1)" for i
  proof -
    from that(1) obtain n where n: "i = Suc n" by (cases i) simp_all
    with that(2) have nl: "n < length z" "Suc n < length z" by simp_all
    from upto_total [OF idx nl(1), of cash entry_z exit_z]
    obtain sn where sn: "backtest_upto spread z cash entry_z exit_z n = Inr sn" by blast
    from upto_total [OF idx nl(2), of cash entry_z exit_z]
    obtain sn' where sn': "backtest_upto spread z cash entry_z exit_z (Suc n) = Inr sn'"
      by blast
    from nl have le: "Suc n \<le> length z - 1" "n \<le> length z - 1" by simp_all
    from upto_pnl_nth [OF idx lt u le(1) sn'] upto_pnl_nth [OF idx lt u le(2) sn] that(3) n out
    have "capital sn' \<noteq> capital sn" by simp
    with step_capital [OF idx nl(2) sn sn'] n show ?thesis by simp
  qed
  have 4: "P ! k = P ! j"
    if "j \<le> k" "k < length z" "\<forall>i \<in> {j<..k}. \<not> closes_at spread z cash entry_z exit_z i"
    for j k
    using flat_interval [OF idx that(2) u that(1,3)] out by simp
  from inv out have 5: "\<forall>tr \<in> set trs. \<exists>e x. trade_steps spread z P tr e x"
    by (simp add: ledger_inv_def)
  from 1 2 3 4 5 show ?thesis by blast
qed

theorem capital_trajectory_witness:
  "backtest_pair ex_x ex_y 100000 1 0.2 = Inr (ex_pnl, ex_spread, ex_z, 2, ex_trades) \<and>
   length ex_pnl = length ex_z \<and> ex_pnl ! 0 = Fin 100000 \<and>
   (1::nat) \<le> 3 \<and> 3 < length ex_z \<and> ex_pnl ! 3 \<noteq> ex_pnl ! (3 - 1) \<and>
   closes_at ex_spread ex_z 100000 1 0.2 3 \<and>
   (0::nat) \<le> 2 \<and> 2 < length ex_z \<and>
   \<not> closes_at ex_spread ex_z 100000 1 0.2 1 \<and> \<not> closes_at ex_spread ex_z 100000 1 0.2 2 \<and>
   ex_pnl ! 2 = ex_pnl ! 0 \<and>
   ex_trades ! 0 \<in> set ex_trades \<and>
   (\<exists>e x. trade_steps ex_spread ex_z ex_pnl (ex_trades ! 0) e x)"
proof -
  note T = capital_trajectory [OF ex_run]
  have a: "(1::nat) \<le> 3 \<and> 3 < length ex_z \<and> ex_pnl ! 3 \<noteq> ex_pnl ! (3 - 1)"
    by (simp add: ex_z_def ex_pnl_def)
  with T have b: "closes_at ex_spread ex_z 100000 1 0.2 3" by blast
  have n: "(1::nat) - 1 = 0" "(2::nat) - 1 = 1" by simp_all
  have c: "\<not> closes_at ex_spread ex_z 100000 1 0.2 1" "\<not> closes_at ex_spread ex_z 100000 1 0.2 2"
    unfolding closes_at_def n backtest_upto_0 ex_upto_1_run ex_upto_2_run
    by (simp_all add: init_def ex_upto_1_def ex_upto_2_def)
  have "\<forall>i \<in> {0<..2}. \<not> closes_at ex_spread ex_z 100000 1 0.2 i"
  proof
    fix i :: nat
    assume "i \<in> {0<..2}"
    then have "i = 1 \<or> i = 2" by auto
    with c show "\<not> closes_at ex_spread ex_z 100000 1 0.2 i" by blast
  qed
  moreover have d: "(0::nat) \<le> 2 \<and> 2 < length ex_z" by (simp add: ex_z_def)
  ultimately have e: "ex_pnl ! 2 = ex_pnl ! 0" using T by blast
  have f: "ex_trades ! 0 \<in> set ex_trades" by (simp add: ex_trades_def)
  with T have g: "\<exists>e x. trade_steps ex_spread ex_z ex_pnl (ex_trades ! 0) e x" by blast
  from T have h: "length ex_pnl = length ex_z" "ex_pnl ! 0 = Fin 100000" by blast+
  from ex_run a b c d e f g h show ?thesis by blast
qed

subsection \<open>Final capital and open positions\<close>

text \<open>
  Claim C7, as amended. The last value of the capital trajectory is the initial capital
  with the profits of the trades in the returned ledger added to it one after the other,
  in the order of the ledger, each sum rounded to a double as \<^verbatim>\<open>capital += profit\<close> rounds
  it. The returned trajectory and ledger are those of the last loop state: when its
  position is still open, entered at step \<open>e\<close>, the trajectory is constant from \<open>e - 1\<close> to
  the end and every trade of the ledger was closed at a step before \<open>e\<close>, so the open
  position has realized nothing and has no record.
\<close>

theorem final_capital:
  assumes run: "backtest_pair x y cash entry_z exit_z = Inr (P, spread, z, beta, trs)"
  shows "P \<noteq> [] \<and> last P = foldl fadd (Fin cash) (map t_profit trs) \<and>
     (\<exists>s. backtest_upto spread z cash entry_z exit_z (length z - 1) = Inr s \<and>
          P = pnl s \<and> trs = trades s \<and>
          (position s \<noteq> 0 \<longrightarrow>
             (\<exists>e. open_since spread P (length z - 1) s e \<and>
                  (\<forall>tr \<in> set trs. \<exists>x. x < e \<and> t_exit_date tr = fst (spread ! x)))))"
proof -
  from run obtain s where idx: "map fst z = map fst spread" and pos: "0 < length z"
    and u: "backtest_upto spread z cash entry_z exit_z (length z - 1) = Inr s"
    and out: "P = pnl s" "trs = trades s"
    by (rule backtest_pairE)
  from pos have lt: "length z - 1 < length z" by simp
  from upto_ledger_inv [OF idx lt, of cash entry_z exit_z] u
  have inv: "ledger_inv spread z (length z - 1) s" by simp
  then have len: "length (pnl s) = Suc (length z - 1)"
    and cap: "pnl s ! (length z - 1) = capital s"
    by (simp_all add: ledger_inv_def)
  from len have ne: "pnl s \<noteq> []" by auto
  with len cap have "last (pnl s) = capital s" by (simp add: last_conv_nth)
  with upto_capital_fold [OF idx lt u] out
  have 2: "last P = foldl fadd (Fin cash) (map t_profit trs)" by simp
  from inv out have 3: "position s \<noteq> 0 \<longrightarrow>
             (\<exists>e. open_since spread P (length z - 1) s e \<and>
                  (\<forall>tr \<in> set trs. \<exists>x. x < e \<and> t_exit_date tr = fst (spread ! x)))"
    by (simp add: ledger_inv_def)
  from ne out have 1: "P \<noteq> []" by simp
  show ?thesis
    by (intro conjI exI [of _ s]) (rule 1 2 u out 3)+
qed

theorem final_capital_witness:
  "backtest_pair ex_x ex_y 100000 1 0.2 = Inr (ex_pnl, ex_spread, ex_z, 2, ex_trades) \<and>
   last ex_pnl = foldl fadd (Fin 100000) (map t_profit ex_trades) \<and>
   foldl fadd (Fin 100000) (map t_profit ex_trades) = Fin 130000 \<and>
   backtest_upto ex_spread ex_z 100000 1 0.2 (length ex_z - 1) = Inr ex_final \<and>
   position ex_final \<noteq> 0 \<and>
   (\<exists>e. open_since ex_spread ex_pnl (length ex_z - 1) ex_final e \<and>
        (\<forall>tr \<in> set ex_trades. \<exists>x. x < e \<and> t_exit_date tr = fst (ex_spread ! x)))"
proof -
  note T = final_capital [OF ex_run]
  have l: "length ex_z - 1 = 6" by (simp add: ex_z_def)
  have p: "position ex_final \<noteq> 0" by (simp add: ex_final_def)
  from T have a: "last ex_pnl = foldl fadd (Fin 100000) (map t_profit ex_trades)" by blast
  have b: "foldl fadd (Fin 100000) (map t_profit ex_trades) = Fin 130000"
    by (simp add: ex_trades_def double_int)
  from T obtain s where "backtest_upto ex_spread ex_z 100000 1 0.2 (length ex_z - 1) = Inr s"
    and "position s \<noteq> 0 \<longrightarrow>
          (\<exists>e. open_since ex_spread ex_pnl (length ex_z - 1) s e \<and>
               (\<forall>tr \<in> set ex_trades. \<exists>x. x < e \<and> t_exit_date tr = fst (ex_spread ! x)))"
    by blast
  with l ex_upto_6_run p have c: "\<exists>e. open_since ex_spread ex_pnl (length ex_z - 1) ex_final e \<and>
        (\<forall>tr \<in> set ex_trades. \<exists>x. x < e \<and> t_exit_date tr = fst (ex_spread ! x))"
    by simp
  from ex_upto_6_run l have d: "backtest_upto ex_spread ex_z 100000 1 0.2 (length ex_z - 1) = Inr ex_final"
    by simp
  from ex_run a b c d p show ?thesis by blast
qed

text \<open>
  Claim C7 as stated fails: the final capital is not the initial capital plus the sum of
  the profits. In the run of \<open>rnd_x\<close> and \<open>rnd_y\<close> with the initial capital
  \<open>2814749767106570\<close> the ledger holds the profits \<open>633318697598978.25\<close> and
  \<open>351843720888321.25\<close>. Each of the two additions to the capital is rounded down by
  \<open>0.25\<close>, and the trajectory ends at \<open>3799912185593869\<close>; the sum of the two profits is
  \<open>985162418487299.5\<close>, and the initial capital plus that sum is \<open>3799912185593869.5\<close>, a
  double, whether the sum is taken in doubles or in the reals.
\<close>

theorem final_capital_counterexample:
  "backtest_pair rnd_x rnd_y 2814749767106570 1 0.2 = Inr (rnd_pnl, rnd_y, rnd_z, 0, rnd_trades) \<and>
   last rnd_pnl = Fin 3799912185593869 \<and>
   map t_profit rnd_trades = [Fin (2533274790395913 / 4), Fin (1407374883553285 / 4)] \<and>
   fadd (Fin 2814749767106570) (fsum (map t_profit rnd_trades)) = Fin (7599824371187739 / 2) \<and>
   (2814749767106570 :: real) + (2533274790395913 / 4 + 1407374883553285 / 4) =
     7599824371187739 / 2 \<and>
   last rnd_pnl \<noteq> fadd (Fin 2814749767106570) (fsum (map t_profit rnd_trades))"
proof -
  have 1: "last rnd_pnl = Fin 3799912185593869" by (simp add: rnd_pnl_def)
  have 2: "map t_profit rnd_trades =
      [Fin (2533274790395913 / 4), Fin (1407374883553285 / 4)]"
    by (simp add: rnd_trades_def)
  have 3: "(2814749767106570 :: real) + (2533274790395913 / 4 + 1407374883553285 / 4) =
      7599824371187739 / 2"
    by simp
  have 4: "last rnd_pnl \<noteq> fadd (Fin 2814749767106570) (fsum (map t_profit rnd_trades))"
    unfolding 1 rnd_total by simp
  from rnd_run 1 2 rnd_total 3 4 show ?thesis by (intro conjI)
qed

subsection \<open>Positions and the order of trades\<close>

text \<open>
  Claim C8. At every step of a run the position is 0 (FLAT), 1 (LONG) or \<open>-1\<close> (SHORT), one
  value at a time; each trade of the ledger exits at a step before the step at which the
  next one enters, and so, on a price series with strictly increasing timestamps, its
  exit timestamp is strictly before the entry timestamp of the next.
\<close>

theorem no_overlap:
  fixes x :: "('ts::linorder, real) series"
  assumes run: "backtest_pair x y cash entry_z exit_z = Inr (P, spread, z, beta, trs)"
    and sorted: "sorted_wrt (<) (map fst x)"
  shows "(\<forall>t < length z. \<exists>s. backtest_upto spread z cash entry_z exit_z t = Inr s \<and>
             (position s = 0 \<or> position s = 1 \<or> position s = - 1)) \<and>
         (\<forall>i. Suc i < length trs \<longrightarrow>
            (\<exists>c e. c < e \<and> e < length z \<and> t_exit_date (trs ! i) = fst (spread ! c) \<and>
                   t_entry_date (trs ! Suc i) = fst (spread ! e)) \<and>
            t_exit_date (trs ! i) < t_entry_date (trs ! Suc i))"
proof -
  from run obtain s where cs: "compute_spread x y = Inr (spread, beta)"
    and idx: "map fst z = map fst spread" and pos: "0 < length z"
    and u: "backtest_upto spread z cash entry_z exit_z (length z - 1) = Inr s"
    and out: "P = pnl s" "trs = trades s"
    by (rule backtest_pairE)
  from idx have len: "length spread = length z" by (metis length_map)
  from compute_spread_labels(1) [OF cs] sorted
  have srt: "sorted_wrt (<) (map fst spread)" by simp
  from pos have lt: "length z - 1 < length z" by simp
  from upto_ledger_inv [OF idx lt, of cash entry_z exit_z] u
  have inv: "ledger_inv spread z (length z - 1) s" by simp
  have 1: "\<exists>s. backtest_upto spread z cash entry_z exit_z t = Inr s \<and>
             (position s = 0 \<or> position s = 1 \<or> position s = - 1)" if "t < length z" for t
    using upto_total [OF idx that, of cash entry_z exit_z] by (auto simp: wf_def)
  have 2: "(\<exists>c e. c < e \<and> e < length z \<and> t_exit_date (trs ! i) = fst (spread ! c) \<and>
                   t_entry_date (trs ! Suc i) = fst (spread ! e)) \<and>
            t_exit_date (trs ! i) < t_entry_date (trs ! Suc i)" if "Suc i < length trs" for i
  proof -
    from inv that out obtain a b where ab: "a < b" "b \<le> length z - 1"
      "t_exit_date (trs ! i) = fst (spread ! a)" "t_entry_date (trs ! Suc i) = fst (spread ! b)"
      unfolding ledger_inv_def by blast
    from ab(2) pos len have b: "b < length spread" "b < length z" by arith+
    from sorted_labels [OF srt ab(1) b(1)] ab(3,4)
    have "t_exit_date (trs ! i) < t_entry_date (trs ! Suc i)" by simp
    with ab b(2) show ?thesis by blast
  qed
  from 1 2 show ?thesis by blast
qed

theorem no_overlap_witness:
  "backtest_pair ex_x ex_y 100000 1 0.2 = Inr (ex_pnl, ex_spread, ex_z, 2, ex_trades) \<and>
   sorted_wrt (<) (map fst ex_x) \<and>
   3 < length ex_z \<and>
   (\<exists>s. backtest_upto ex_spread ex_z 100000 1 0.2 3 = Inr s \<and>
        (position s = 0 \<or> position s = 1 \<or> position s = - 1)) \<and>
   Suc 0 < length ex_trades \<and>
   t_exit_date (ex_trades ! 0) < t_entry_date (ex_trades ! Suc 0)"
proof -
  note T = no_overlap [OF ex_run ex_sorted]
  have a: "3 < length ex_z" by (simp add: ex_z_def)
  with T have b: "\<exists>s. backtest_upto ex_spread ex_z 100000 1 0.2 3 = Inr s \<and>
        (position s = 0 \<or> position s = 1 \<or> position s = - 1)" by blast
  have c: "Suc 0 < length ex_trades" by (simp add: ex_trades_def)
  with T have d: "t_exit_date (ex_trades ! 0) < t_entry_date (ex_trades ! Suc 0)" by blast
  from ex_run ex_sorted a b c d show ?thesis by blast
qed

subsection \<open>Entry before exit\<close>

text \<open>
  Claim C10. Every trade of the ledger was entered at a step strictly before the step at
  which it was closed, so with strictly increasing timestamps its entry timestamp is
  strictly before its exit timestamp.
\<close>

theorem entry_before_exit:
  fixes x :: "('ts::linorder, real) series"
  assumes run: "backtest_pair x y cash entry_z exit_z = Inr (P, spread, z, beta, trs)"
    and sorted: "sorted_wrt (<) (map fst x)"
    and tr: "tr \<in> set trs"
  shows "(\<exists>e c. e < c \<and> c < length z \<and> t_entry_date tr = fst (spread ! e) \<and>
                 t_exit_date tr = fst (spread ! c)) \<and>
         t_entry_date tr < t_exit_date tr"
proof -
  from run obtain s where cs: "compute_spread x y = Inr (spread, beta)"
    and idx: "map fst z = map fst spread" and pos: "0 < length z"
    and u: "backtest_upto spread z cash entry_z exit_z (length z - 1) = Inr s"
    and out: "P = pnl s" "trs = trades s"
    by (rule backtest_pairE)
  from idx have len: "length spread = length z" by (metis length_map)
  from compute_spread_labels(1) [OF cs] sorted
  have srt: "sorted_wrt (<) (map fst spread)" by simp
  from pos have lt: "length z - 1 < length z" by simp
  from upto_ledger_inv [OF idx lt, of cash entry_z exit_z] u
  have inv: "ledger_inv spread z (length z - 1) s" by simp
  with tr out obtain e c where "trade_steps spread z (pnl s) tr e c"
    unfolding ledger_inv_def by blast
  moreover from inv pos have "length (pnl s) = length z" by (simp add: ledger_inv_def)
  ultimately have ec: "e < c" "c < length z" "t_entry_date tr = fst (spread ! e)"
    "t_exit_date tr = fst (spread ! c)"
    unfolding trade_steps_def by simp_all
  from ec(2) len have "c < length spread" by simp
  from sorted_labels [OF srt ec(1) this] ec show ?thesis by auto
qed

theorem entry_before_exit_witness:
  "backtest_pair ex_x ex_y 100000 1 0.2 = Inr (ex_pnl, ex_spread, ex_z, 2, ex_trades) \<and>
   sorted_wrt (<) (map fst ex_x) \<and>
   ex_trades ! 1 \<in> set ex_trades \<and>
   t_entry_date (ex_trades ! 1) < t_exit_date (ex_trades ! 1) \<and>
   t_entry_date (ex_trades ! 1) = 4 \<and> t_exit_date (ex_trades ! 1) = 5"
proof -
  have a: "ex_trades ! 1 \<in> set ex_trades" by (simp add: ex_trades_def)
  from entry_before_exit [OF ex_run ex_sorted a]
  have b: "t_entry_date (ex_trades ! 1) < t_exit_date (ex_trades ! 1)" by blast
  have c: "t_entry_date (ex_trades ! 1) = 4" "t_exit_date (ex_trades ! 1) = 5"
    by (simp_all add: ex_trades_def)
  from ex_run ex_sorted a b c show ?thesis by blast
qed

end
